theory Spec2Isabelle
  imports Complex_Main "HOL-Library.AList"
begin

section \<open>Data model (db/struct.go)\<close>

text \<open>
  A property value is Go's \<^verbatim>\<open>interface{}\<close>.  The constructors cover the kinds of
  value the repository stores in a property map: strings, integers, booleans and string
  slices.
\<close>

datatype pvalue = PString string | PInt int | PBool bool | PStrings "string list"

text \<open>
  \<^verbatim>\<open>type Properties map[string]interface{}\<close>.  A property map is a value here: reading a
  nil map in Go behaves as reading the empty map, and the only writes of the store first
  replace a nil map by a fresh empty one, so both are \<open>Map.empty\<close>.  Records do not share
  one map object.
\<close>

type_synonym Properties = "string \<rightharpoonup> pvalue"

type_synonym EntityType = string
type_synonym RelationshipType = string

text \<open>
  \<^verbatim>\<open>Confidence float64\<close> is only ever compared with \<^verbatim>\<open>></\<close>; it is a real number
  here (no NaN).
\<close>

record Entity =
  ID :: string
  Label :: string
  Type :: EntityType
  Properties :: Properties
  Confidence :: real

text \<open>
  The fields of \<^verbatim>\<open>Relationship\<close> are \<^verbatim>\<open>ID, Source, Target, Type, Properties, Confidence\<close>;
  the three that \<^verbatim>\<open>Entity\<close> also has carry the prefix \<open>R\<close>.
\<close>

record Relationship =
  RID :: string
  Source :: string
  Target :: string
  RType :: RelationshipType
  RProperties :: Properties
  RConfidence :: real

section \<open>The in-memory store (db/inmemory.go)\<close>

text \<open>
  \<^verbatim>\<open>entities map[string]Entity\<close> is only read and written by key, so it is a map.
  \<^verbatim>\<open>relationships map[string]Relationship\<close> is also iterated by \<^verbatim>\<open>CreateRelationship\<close>,
  so it is an association list with distinct keys, visited front to back.  Go leaves the
  order of a \<^verbatim>\<open>range\<close> over a map unspecified; the order only matters when two stored
  relationships match the same (source, target, type), and every statement below that
  depends on the search has at most one match.
\<close>

record InMemoryDatabase =
  entities :: "string \<rightharpoonup> Entity"
  relationships :: "(string \<times> Relationship) list"

text \<open>
  The errors of the store and of \<^verbatim>\<open>StoreKnowledgeGraph\<close>, which wraps the error of a failed
  entity write together with the label of the entity.
\<close>

datatype error = SourceNotFound string | TargetNotFound string | CreateEntityFailed string error

definition NewInMemoryDatabase :: InMemoryDatabase where
  "NewInMemoryDatabase = \<lparr>entities = Map.empty, relationships = []\<rparr>"

definition ClearDatabase :: "InMemoryDatabase \<Rightarrow> error option \<times> InMemoryDatabase" where
  "ClearDatabase db = (None, db\<lparr>entities := Map.empty, relationships := []\<rparr>)"

text \<open>
  \<^verbatim>\<open>CreateEntity\<close>: an existing record keeps its id and type, takes the incoming label,
  takes the incoming confidence when that is strictly greater, and receives every
  incoming property (\<open>++\<close> lets the right map win).  It always returns nil.
\<close>

definition CreateEntity :: "InMemoryDatabase \<Rightarrow> Entity \<Rightarrow> error option \<times> InMemoryDatabase" where
  "CreateEntity db entity =
     (case entities db (ID entity) of
        Some existingEntity \<Rightarrow>
          (let updatedEntity = existingEntity\<lparr>Label := Label entity\<rparr>;
               updatedEntity = (if Confidence entity > Confidence existingEntity
                                then updatedEntity\<lparr>Confidence := Confidence entity\<rparr>
                                else updatedEntity);
               updatedEntity = updatedEntity\<lparr>Properties :=
                                 Properties updatedEntity ++ Properties entity\<rparr>
           in (None, db\<lparr>entities := (entities db)(ID entity \<mapsto> updatedEntity)\<rparr>))
      | None \<Rightarrow> (None, db\<lparr>entities := (entities db)(ID entity \<mapsto> entity)\<rparr>))"

definition sameEdge :: "Relationship \<Rightarrow> Relationship \<Rightarrow> bool" where
  "sameEdge rel relationship \<longleftrightarrow>
     Source rel = Source relationship \<and> Target rel = Target relationship \<and>
     RType rel = RType relationship"

text \<open>
  The search loop of \<^verbatim>\<open>CreateRelationship\<close>: \<^verbatim>\<open>existingID\<close> starts as the empty string
  and becomes the key of the first visited entry with the same source, target and type.
\<close>

definition findExisting :: "(string \<times> Relationship) list \<Rightarrow> Relationship \<Rightarrow> string \<times> Relationship option" where
  "findExisting rels relationship =
     (case find (\<lambda>(key, rel). sameEdge rel relationship) rels of
        None \<Rightarrow> ('''', None)
      | Some (key, rel) \<Rightarrow> (key, Some rel))"

text \<open>
  \<^verbatim>\<open>CreateRelationship\<close>: both endpoints must be keys of the entity map, else an error is
  returned before anything is written.  Then the edge found by the search is updated
  (confidence when strictly greater, properties merged) under its own key, or, when
  \<^verbatim>\<open>existingID\<close> is still the empty string, the incoming relationship is stored under its
  own id.  \<^verbatim>\<open>db.relationships[existingID]\<close> is the entry the loop stopped at.
\<close>

definition CreateRelationship :: "InMemoryDatabase \<Rightarrow> Relationship \<Rightarrow> error option \<times> InMemoryDatabase" where
  "CreateRelationship db relationship =
     (if entities db (Source relationship) = None
        then (Some (SourceNotFound (Source relationship)), db)
      else if entities db (Target relationship) = None
        then (Some (TargetNotFound (Target relationship)), db)
      else
        (case findExisting (relationships db) relationship of
           (existingID, found) \<Rightarrow>
             (case (if existingID \<noteq> '''' then found else None) of
                Some existingRel \<Rightarrow>
                  (let existingRel = (if RConfidence relationship > RConfidence existingRel
                                      then existingRel\<lparr>RConfidence := RConfidence relationship\<rparr>
                                      else existingRel);
                       existingRel = existingRel\<lparr>RProperties :=
                                       RProperties existingRel ++ RProperties relationship\<rparr>
                   in (None, db\<lparr>relationships :=
                                  AList.update existingID existingRel (relationships db)\<rparr>))
              | None \<Rightarrow>
                  (None, db\<lparr>relationships :=
                               AList.update (RID relationship) relationship (relationships db)\<rparr>))))"

text \<open>The batch operations stop at the first error and return it.\<close>

fun CreateEntities :: "InMemoryDatabase \<Rightarrow> Entity list \<Rightarrow> error option \<times> InMemoryDatabase" where
  "CreateEntities db [] = (None, db)"
| "CreateEntities db (entity # rest) =
     (case CreateEntity db entity of
        (Some err, db') \<Rightarrow> (Some err, db')
      | (None, db') \<Rightarrow> CreateEntities db' rest)"

fun CreateRelationships :: "InMemoryDatabase \<Rightarrow> Relationship list \<Rightarrow> error option \<times> InMemoryDatabase" where
  "CreateRelationships db [] = (None, db)"
| "CreateRelationships db (relationship # rest) =
     (case CreateRelationship db relationship of
        (Some err, db') \<Rightarrow> (Some err, db')
      | (None, db') \<Rightarrow> CreateRelationships db' rest)"

text \<open>
  The write that \<^verbatim>\<open>CreateRelationship\<close> performs once both endpoints are known to exist,
  on the relationship table alone.
\<close>

definition mergeRel :: "Relationship \<Rightarrow> Relationship \<Rightarrow> Relationship" where
  "mergeRel existingRel relationship =
     existingRel\<lparr>RConfidence := (if RConfidence relationship > RConfidence existingRel
                                  then RConfidence relationship else RConfidence existingRel),
                  RProperties := RProperties existingRel ++ RProperties relationship\<rparr>"

definition upsertRel :: "(string \<times> Relationship) list \<Rightarrow> Relationship \<Rightarrow> (string \<times> Relationship) list" where
  "upsertRel rels relationship =
     (case findExisting rels relationship of
        (existingID, found) \<Rightarrow>
          (case (if existingID \<noteq> '''' then found else None) of
             Some existingRel \<Rightarrow> AList.update existingID (mergeRel existingRel relationship) rels
           | None \<Rightarrow> AList.update (RID relationship) relationship rels))"

section \<open>Storing a batch (KnowledgeGraphGenerator.StoreKnowledgeGraph)\<close>

text \<open>
  \<^verbatim>\<open>StoreKnowledgeGraph\<close> over the in-memory store.  The entity loop returns at the first
  failed write.  The relationship loop logs a failed write and goes on, counting the
  successful ones in \<^verbatim>\<open>successfulRelationships\<close>.  The function then returns nil;
  \<^verbatim>\<open>debugFunctionRelationships\<close> only reads the store and prints, so it has no part
  here.  \<open>failures\<close> is the sequence of \<^verbatim>\<open>log.Printf\<close> lines of the relationship loop.
\<close>

record StoreOutcome =
  returned :: "error option"
  database :: InMemoryDatabase
  successfulRelationships :: nat
  failures :: "(Relationship \<times> error) list"

fun storeEntities :: "InMemoryDatabase \<Rightarrow> Entity list \<Rightarrow> error option \<times> InMemoryDatabase" where
  "storeEntities db [] = (None, db)"
| "storeEntities db (entity # rest) =
     (case CreateEntity db entity of
        (Some err, db') \<Rightarrow> (Some (CreateEntityFailed (Label entity) err), db')
      | (None, db') \<Rightarrow> storeEntities db' rest)"

fun storeRelationships ::
  "InMemoryDatabase \<Rightarrow> Relationship list \<Rightarrow> nat \<Rightarrow> (Relationship \<times> error) list \<Rightarrow>
   InMemoryDatabase \<times> nat \<times> (Relationship \<times> error) list" where
  "storeRelationships db [] n logged = (db, n, logged)"
| "storeRelationships db (relationship # rest) n logged =
     (case CreateRelationship db relationship of
        (Some err, db') \<Rightarrow> storeRelationships db' rest n (logged @ [(relationship, err)])
      | (None, db') \<Rightarrow> storeRelationships db' rest (Suc n) logged)"

definition StoreKnowledgeGraph :: "InMemoryDatabase \<Rightarrow> Entity list \<Rightarrow> Relationship list \<Rightarrow> StoreOutcome" where
  "StoreKnowledgeGraph db ents rels =
     (case storeEntities db ents of
        (Some err, db') \<Rightarrow>
          \<lparr>returned = Some err, database = db', successfulRelationships = 0, failures = []\<rparr>
      | (None, db') \<Rightarrow>
          (case storeRelationships db' rels 0 [] of
             (db'', n, logged) \<Rightarrow>
               \<lparr>returned = None, database = db'', successfulRelationships = n,
                failures = logged\<rparr>))"

section \<open>Strings and formatting (Go standard library)\<close>

text \<open>
  A Go string is a sequence of bytes, a \<open>string\<close> here.  \<^verbatim>\<open>strings.ToLower\<close> maps the
  bytes \<^verbatim>\<open>A..Z\<close> to \<^verbatim>\<open>a..z\<close> when every byte of the string is below \<^verbatim>\<open>0x80\<close>.  For any
  other string it maps \<^verbatim>\<open>unicode.ToLower\<close> over the decoded runes; that part of the
  standard library is the parameter \<open>ul\<close>.
\<close>

definition lowerByte :: "char \<Rightarrow> char" where
  "lowerByte c =
     (case map_of (zip ''ABCDEFGHIJKLMNOPQRSTUVWXYZ'' ''abcdefghijklmnopqrstuvwxyz'') c of
        Some l \<Rightarrow> l | None \<Rightarrow> c)"

definition isASCII :: "string \<Rightarrow> bool" where
  "isASCII s = list_all (\<lambda>c. (of_char c :: nat) < 128) s"

definition ToLower :: "(string \<Rightarrow> string) \<Rightarrow> string \<Rightarrow> string" where
  "ToLower ul s = (if isASCII s then map lowerByte s else ul s)"

text \<open>\<^verbatim>\<open>strconv\<close>'s decimal rendering of an integer.\<close>

fun digits10 :: "nat \<Rightarrow> string" where
  "digits10 n =
     (if n < 10 then [''0123456789'' ! n]
      else digits10 (n div 10) @ [''0123456789'' ! (n mod 10)])"

definition Itoa :: "int \<Rightarrow> string" where
  "Itoa i = (if i < 0 then ''-'' @ digits10 (nat (- i)) else digits10 (nat i))"

text \<open>\<^verbatim>\<open>strings.Join(elems, sep)\<close>.\<close>

fun Join :: "string list \<Rightarrow> string \<Rightarrow> string" where
  "Join [] sep = []"
| "Join [x] sep = x"
| "Join (x # y # ys) sep = x @ sep @ Join (y # ys) sep"

text \<open>\<^verbatim>\<open>fmt.Sprintf("%v", x)\<close> for the kinds of value a property holds.\<close>

fun Sprint_v :: "pvalue \<Rightarrow> string" where
  "Sprint_v (PString s) = s"
| "Sprint_v (PInt i) = Itoa i"
| "Sprint_v (PBool b) = (if b then ''true'' else ''false'')"
| "Sprint_v (PStrings xs) = ''['' @ Join xs '' '' @ '']''"

text \<open>\<^verbatim>\<open>fmt.Sprintf("%x", s)\<close> for a string: two lower-case hex digits for each byte.\<close>

definition hexDigit :: "nat \<Rightarrow> char" where
  "hexDigit n = ''0123456789abcdef'' ! n"

definition hexByte :: "char \<Rightarrow> string" where
  "hexByte c = [hexDigit (of_char c div 16), hexDigit (of_char c mod 16)]"

definition Sprint_x :: "string \<Rightarrow> string" where
  "Sprint_x s = concat (map hexByte s)"

text \<open>Decoding of a hex string, the inverse of \<open>Sprint_x\<close> (not in the source).\<close>

definition unhexDigit :: "char \<Rightarrow> nat" where
  "unhexDigit c =
     (case map_of (zip ''0123456789abcdef'' [0 ..< 16]) c of Some n \<Rightarrow> n | None \<Rightarrow> 0)"

fun unhex :: "string \<Rightarrow> string" where
  "unhex (a # b # rest) = char_of (unhexDigit a * 16 + unhexDigit b) # unhex rest"
| "unhex _ = []"

text \<open>\<^verbatim>\<open>strings.HasPrefix\<close>, \<^verbatim>\<open>strings.TrimPrefix\<close>, \<^verbatim>\<open>strings.Contains\<close>.\<close>

definition HasPrefix :: "string \<Rightarrow> string \<Rightarrow> bool" where
  "HasPrefix s pre = (take (length pre) s = pre)"

definition TrimPrefix :: "string \<Rightarrow> string \<Rightarrow> string" where
  "TrimPrefix s pre = (if HasPrefix s pre then drop (length pre) s else s)"

fun Contains :: "string \<Rightarrow> string \<Rightarrow> bool" where
  "Contains [] substr = (substr = [])"
| "Contains (c # s) substr = (HasPrefix (c # s) substr \<or> Contains s substr)"

text \<open>\<^verbatim>\<open>strings.Split(s, sep)\<close> for a separator of one byte.\<close>

fun Split :: "string \<Rightarrow> char \<Rightarrow> string list" where
  "Split [] sep = [[]]"
| "Split (c # s) sep =
     (if c = sep then [] # Split s sep
      else (case Split s sep of x # xs \<Rightarrow> (c # x) # xs | [] \<Rightarrow> [[c]]))"

section \<open>Deterministic identity (internal/core/graph/types.go)\<close>

definition EntityTypeFile :: EntityType where "EntityTypeFile = ''FILE''"
definition EntityTypeDirectory :: EntityType where "EntityTypeDirectory = ''DIRECTORY''"
definition EntityTypeModule :: EntityType where "EntityTypeModule = ''MODULE''"
definition EntityTypeImport :: EntityType where "EntityTypeImport = ''IMPORT''"
definition RelationshipTypeContains :: RelationshipType where "RelationshipTypeContains = ''CONTAINS''"
definition RelationshipTypeReferences :: RelationshipType where "RelationshipTypeReferences = ''REFERENCES''"

text \<open>
  \<^verbatim>\<open>generateDeterministicID\<close>: the key parts are appended in the order of the source, joined
  with \<^verbatim>\<open>|\<close> and printed with \<^verbatim>\<open>%x\<close>.  The hash of the key is commented out in the source.
\<close>

definition generateDeterministicID :: "(string \<Rightarrow> string) \<Rightarrow> EntityType \<Rightarrow> string \<Rightarrow> Properties \<Rightarrow> string" where
  "generateDeterministicID ul entityType label properties =
     (let keyParts = [ToLower ul entityType, ToLower ul label];
          keyParts =
            (case properties ''fullPath'' of
               Some fullPath \<Rightarrow> keyParts @ [ToLower ul (Sprint_v fullPath)]
             | None \<Rightarrow>
                 (case properties ''path'' of
                    Some path \<Rightarrow> keyParts @ [ToLower ul (Sprint_v path)]
                  | None \<Rightarrow>
                      (case properties ''relativePath'' of
                         Some relativePath \<Rightarrow> keyParts @ [ToLower ul (Sprint_v relativePath)]
                       | None \<Rightarrow> keyParts)));
          keyParts =
            (case properties ''sourceFile'' of
               Some sourceFile \<Rightarrow>
                 (let keyParts = keyParts @ [ToLower ul (Sprint_v sourceFile)]
                  in (case properties ''lineNumber'' of
                        Some lineNumber \<Rightarrow> keyParts @ [''line:'' @ Sprint_v lineNumber]
                      | None \<Rightarrow> keyParts))
             | None \<Rightarrow> keyParts);
          keyParts =
            (case properties ''namespace'' of
               Some namespace \<Rightarrow> keyParts @ [ToLower ul (''ns:'' @ Sprint_v namespace)]
             | None \<Rightarrow> keyParts);
          keyParts =
            (case properties ''package'' of
               Some pkg \<Rightarrow> keyParts @ [ToLower ul (''pkg:'' @ Sprint_v pkg)]
             | None \<Rightarrow> keyParts);
          key = Join keyParts ''|''
      in Sprint_x key)"

definition generateDeterministicRelationshipID :: "string \<Rightarrow> string \<Rightarrow> RelationshipType \<Rightarrow> string" where
  "generateDeterministicRelationshipID sourceID targetID relType =
     (let key = sourceID @ ''|'' @ relType @ ''|'' @ targetID in Sprint_x key)"

text \<open>
  \<^verbatim>\<open>graph.CreateEntity\<close> and \<^verbatim>\<open>graph.CreateRelationship\<close>; the store has operations of the
  same names, so these two carry the package name.
\<close>

definition graph_CreateEntity :: "(string \<Rightarrow> string) \<Rightarrow> string \<Rightarrow> EntityType \<Rightarrow> Properties \<Rightarrow> Entity" where
  "graph_CreateEntity ul label entityType properties =
     \<lparr>ID = generateDeterministicID ul entityType label properties, Label = label,
      Type = entityType, Properties = properties, Confidence = 1.0\<rparr>"

definition graph_CreateRelationship :: "string \<Rightarrow> string \<Rightarrow> RelationshipType \<Rightarrow> Properties \<Rightarrow> Relationship" where
  "graph_CreateRelationship source target relType properties =
     \<lparr>RID = generateDeterministicRelationshipID source target relType, Source = source,
      Target = target, RType = relType, RProperties = properties, RConfidence = 1.0\<rparr>"

text \<open>
  The discriminators that enter an id besides type and label, in the words of the
  specification: the first present of \<^verbatim>\<open>fullPath\<close>, \<^verbatim>\<open>path\<close>, \<^verbatim>\<open>relativePath\<close>; the source
  file, followed by the line number when there is a source file; the namespace; the
  package.  The path-like ones are lower-cased.
\<close>

definition pathDiscriminator :: "(string \<Rightarrow> string) \<Rightarrow> Properties \<Rightarrow> string list" where
  "pathDiscriminator ul properties =
     (if properties ''fullPath'' \<noteq> None
        then [ToLower ul (Sprint_v (the (properties ''fullPath'')))]
      else if properties ''path'' \<noteq> None
        then [ToLower ul (Sprint_v (the (properties ''path'')))]
      else if properties ''relativePath'' \<noteq> None
        then [ToLower ul (Sprint_v (the (properties ''relativePath'')))]
      else [])"

definition sourceDiscriminator :: "(string \<Rightarrow> string) \<Rightarrow> Properties \<Rightarrow> string list" where
  "sourceDiscriminator ul properties =
     (case properties ''sourceFile'' of
        None \<Rightarrow> []
      | Some sourceFile \<Rightarrow>
          ToLower ul (Sprint_v sourceFile) #
          (case properties ''lineNumber'' of
             None \<Rightarrow> [] | Some lineNumber \<Rightarrow> [''line:'' @ Sprint_v lineNumber]))"

definition scopeDiscriminator :: "(string \<Rightarrow> string) \<Rightarrow> Properties \<Rightarrow> string list" where
  "scopeDiscriminator ul properties =
     (case properties ''namespace'' of
        None \<Rightarrow> [] | Some namespace \<Rightarrow> [ToLower ul (''ns:'' @ Sprint_v namespace)]) @
     (case properties ''package'' of
        None \<Rightarrow> [] | Some pkg \<Rightarrow> [ToLower ul (''pkg:'' @ Sprint_v pkg)])"

definition identityKey :: "(string \<Rightarrow> string) \<Rightarrow> EntityType \<Rightarrow> string \<Rightarrow> Properties \<Rightarrow> string" where
  "identityKey ul entityType label properties =
     ToLower ul entityType @ ''|'' @ ToLower ul label @
     concat (map (\<lambda>d. ''|'' @ d)
       (pathDiscriminator ul properties @ sourceDiscriminator ul properties @
        scopeDiscriminator ul properties))"

text \<open>
  Two strings that differ only in the case of the letters \<^verbatim>\<open>A..Z\<close>, \<^verbatim>\<open>a..z\<close>, and two
  property maps whose discriminators render to such strings.
\<close>

definition caseVariant :: "string \<Rightarrow> string \<Rightarrow> bool" where
  "caseVariant s t = list_all2 (\<lambda>a b. lowerByte a = lowerByte b) s t"

definition propVariant :: "Properties \<Rightarrow> Properties \<Rightarrow> string \<Rightarrow> bool" where
  "propVariant p q k =
     (case (p k, q k) of
        (None, None) \<Rightarrow> True
      | (Some v, Some w) \<Rightarrow> caseVariant (Sprint_v v) (Sprint_v w)
      | _ \<Rightarrow> False)"

section \<open>Paths and the file tree (path/filepath, os)\<close>

text \<open>
  \<^verbatim>\<open>filepath.Clean\<close> on a slash-separated path: empty and \<^verbatim>\<open>.\<close> elements are dropped, an
  inner \<^verbatim>\<open>..\<close> removes the element before it, \<^verbatim>\<open>..\<close> at the root is dropped, and the
  empty result is \<^verbatim>\<open>.\<close>.  The stack of kept elements has its top at the head.
\<close>

definition cleanStep :: "bool \<Rightarrow> string list \<Rightarrow> string \<Rightarrow> string list" where
  "cleanStep rooted stack c =
     (if c = '''' \<or> c = ''.'' then stack
      else if c = ''..'' then
        (case stack of
           [] \<Rightarrow> (if rooted then [] else [''..''])
         | kept # rest \<Rightarrow> (if kept = ''..'' then ''..'' # stack else rest))
      else c # stack)"

definition Clean :: "string \<Rightarrow> string" where
  "Clean path =
     (case path of
        [] \<Rightarrow> ''.''
      | c # rest \<Rightarrow>
          (if c = CHR ''/'' then
             ''/'' @ Join (rev (foldl (cleanStep True) [] (Split rest CHR ''/''))) ''/''
           else
             (let body = Join (rev (foldl (cleanStep False) [] (Split path CHR ''/''))) ''/''
              in if body = [] then ''.'' else body)))"

text \<open>\<^verbatim>\<open>filepath.Join\<close> of two elements, \<^verbatim>\<open>filepath.Dir\<close>, \<^verbatim>\<open>filepath.Base\<close>, \<^verbatim>\<open>filepath.Ext\<close>.\<close>

definition filepathJoin :: "string \<Rightarrow> string \<Rightarrow> string" where
  "filepathJoin a b =
     (if a = [] \<and> b = [] then []
      else if a = [] then Clean b
      else if b = [] then Clean a
      else Clean (a @ ''/'' @ b))"

definition filepathDir :: "string \<Rightarrow> string" where
  "filepathDir path = Clean (rev (dropWhile (\<lambda>c. c \<noteq> CHR ''/'') (rev path)))"

definition filepathBase :: "string \<Rightarrow> string" where
  "filepathBase path =
     (if path = [] then ''.''
      else
        (let stripped = rev (dropWhile (\<lambda>c. c = CHR ''/'') (rev path));
             element = rev (takeWhile (\<lambda>c. c \<noteq> CHR ''/'') (rev stripped))
         in if element = [] then ''/'' else element))"

definition filepathExt :: "string \<Rightarrow> string" where
  "filepathExt path =
     (let element = takeWhile (\<lambda>c. c \<noteq> CHR ''/'') (rev path)
      in if CHR ''.'' \<in> set element
         then CHR ''.'' # rev (takeWhile (\<lambda>c. c \<noteq> CHR ''.'') element)
         else [])"

text \<open>
  What the walk finds on disk.  A file has a name, its content (\<open>None\<close> when
  \<^verbatim>\<open>os.ReadFile\<close> or \<^verbatim>\<open>os.Stat\<close> fails) and its modification time as \<^verbatim>\<open>time.RFC3339\<close>
  prints it.  A directory has a name and its entries in the order \<^verbatim>\<open>os.ReadDir\<close>
  returns them (sorted by name).  \<open>FUnreadable\<close> is a directory whose \<^verbatim>\<open>os.ReadDir\<close>
  fails.
\<close>

datatype fsnode =
    FFile string "string option" string
  | FDir string "fsnode list"
  | FUnreadable string

fun nodeName :: "fsnode \<Rightarrow> string" where
  "nodeName (FFile name content modTime) = name"
| "nodeName (FDir name entries) = name"
| "nodeName (FUnreadable name) = name"

fun IsDir :: "fsnode \<Rightarrow> bool" where
  "IsDir (FFile name content modTime) = False"
| "IsDir (FDir name entries) = True"
| "IsDir (FUnreadable name) = True"

datatype ioError = SkipDir | ReadDirFailed string | ReadFileFailed string

text \<open>
  \<^verbatim>\<open>filepath.WalkDir\<close>: the callback is called on a node before its entries; when it
  returns \<^verbatim>\<open>SkipDir\<close> on a directory, the directory is not read; any other error ends the
  walk.  A failed \<^verbatim>\<open>ReadDir\<close> is reported to the callback in a second call.  \<open>'s\<close> is the
  state the callback closes over.
\<close>

fun walkDir ::
  "(string \<Rightarrow> fsnode \<Rightarrow> ioError option \<Rightarrow> 's \<Rightarrow> ioError option \<times> 's) \<Rightarrow>
   string \<Rightarrow> fsnode \<Rightarrow> 's \<Rightarrow> ioError option \<times> 's"
and walkDirEntries ::
  "(string \<Rightarrow> fsnode \<Rightarrow> ioError option \<Rightarrow> 's \<Rightarrow> ioError option \<times> 's) \<Rightarrow>
   string \<Rightarrow> fsnode list \<Rightarrow> 's \<Rightarrow> ioError option \<times> 's"
where
  "walkDir fn path (FFile name content modTime) st = fn path (FFile name content modTime) None st"
| "walkDir fn path (FDir name entries) st =
     (case fn path (FDir name entries) None st of
        (Some err, st') \<Rightarrow> (if err = SkipDir then (None, st') else (Some err, st'))
      | (None, st') \<Rightarrow> walkDirEntries fn path entries st')"
| "walkDir fn path (FUnreadable name) st =
     (case fn path (FUnreadable name) None st of
        (Some err, st') \<Rightarrow> (if err = SkipDir then (None, st') else (Some err, st'))
      | (None, st') \<Rightarrow>
          (case fn path (FUnreadable name) (Some (ReadDirFailed path)) st' of
             (Some err, st'') \<Rightarrow> (if err = SkipDir then (None, st'') else (Some err, st''))
           | (None, st'') \<Rightarrow> (None, st'')))"
| "walkDirEntries fn path [] st = (None, st)"
| "walkDirEntries fn path (d1 # rest) st =
     (case walkDir fn (filepathJoin path (nodeName d1)) d1 st of
        (Some err, st') \<Rightarrow> (if err = SkipDir then (None, st') else (Some err, st'))
      | (None, st') \<Rightarrow> walkDirEntries fn path rest st')"

definition WalkDir ::
  "string \<Rightarrow> fsnode \<Rightarrow> (string \<Rightarrow> fsnode \<Rightarrow> ioError option \<Rightarrow> 's \<Rightarrow> ioError option \<times> 's) \<Rightarrow>
   's \<Rightarrow> ioError option \<times> 's" where
  "WalkDir rootPath d fn st =
     (case walkDir fn rootPath d st of
        (Some err, st') \<Rightarrow> (if err = SkipDir then (None, st') else (Some err, st'))
      | (None, st') \<Rightarrow> (None, st'))"

section \<open>Analyzers and their registry (internal/core/analyzer.go, analyzers/generic.go)\<close>

record CodeFile =
  Path :: string
  Name :: string
  Extension :: string
  Content :: string
  Language :: string
  Size :: int
  LastModified :: string

type_synonym analysis = "string + Entity list \<times> Relationship list"

record LanguageAnalyzer =
  AnalyzerName :: string
  SupportedLanguages :: "string list"
  Analyze :: "CodeFile \<Rightarrow> Entity \<Rightarrow> analysis"

text \<open>
  The bodies of the five language analyzers match regular expressions against the file
  content; they are parameters.  Their names and language tags are those of the source.
\<close>

record Analyzers =
  analyzeGoFile :: "CodeFile \<Rightarrow> Entity \<Rightarrow> analysis"
  analyzeTypeScriptFile :: "CodeFile \<Rightarrow> Entity \<Rightarrow> analysis"
  analyzePythonFile :: "CodeFile \<Rightarrow> Entity \<Rightarrow> analysis"
  analyzeJavaFile :: "CodeFile \<Rightarrow> Entity \<Rightarrow> analysis"
  analyzeJSONFile :: "CodeFile \<Rightarrow> Entity \<Rightarrow> analysis"

definition GoAnalyzer :: "Analyzers \<Rightarrow> LanguageAnalyzer" where
  "GoAnalyzer ext =
     \<lparr>AnalyzerName = ''Go Analyzer'', SupportedLanguages = [''go''], Analyze = analyzeGoFile ext\<rparr>"

definition TypeScriptAnalyzer :: "Analyzers \<Rightarrow> LanguageAnalyzer" where
  "TypeScriptAnalyzer ext =
     \<lparr>AnalyzerName = ''TypeScript Analyzer'', SupportedLanguages = [''typescript'', ''javascript''],
      Analyze = analyzeTypeScriptFile ext\<rparr>"

definition PythonAnalyzer :: "Analyzers \<Rightarrow> LanguageAnalyzer" where
  "PythonAnalyzer ext =
     \<lparr>AnalyzerName = ''Python Analyzer'', SupportedLanguages = [''python''],
      Analyze = analyzePythonFile ext\<rparr>"

definition JavaAnalyzer :: "Analyzers \<Rightarrow> LanguageAnalyzer" where
  "JavaAnalyzer ext =
     \<lparr>AnalyzerName = ''Java Analyzer'', SupportedLanguages = [''java''],
      Analyze = analyzeJavaFile ext\<rparr>"

definition JSONAnalyzer :: "Analyzers \<Rightarrow> LanguageAnalyzer" where
  "JSONAnalyzer ext =
     \<lparr>AnalyzerName = ''JSON Analyzer'', SupportedLanguages = [''json''],
      Analyze = analyzeJSONFile ext\<rparr>"

definition GenericAnalyzer :: LanguageAnalyzer where
  "GenericAnalyzer =
     \<lparr>AnalyzerName = ''Generic Analyzer'', SupportedLanguages = [''unknown''],
      Analyze = (\<lambda>file fileEntity. Inr ([fileEntity], []))\<rparr>"

type_synonym AnalyzerRegistry = "string \<rightharpoonup> LanguageAnalyzer"

definition RegisterAnalyzer :: "AnalyzerRegistry \<Rightarrow> LanguageAnalyzer \<Rightarrow> AnalyzerRegistry" where
  "RegisterAnalyzer ar analyzer =
     foldl (\<lambda>analyzers lang. analyzers(lang \<mapsto> analyzer)) ar (SupportedLanguages analyzer)"

definition NewAnalyzerRegistry :: "Analyzers \<Rightarrow> AnalyzerRegistry" where
  "NewAnalyzerRegistry ext =
     foldl RegisterAnalyzer Map.empty
       [GoAnalyzer ext, TypeScriptAnalyzer ext, PythonAnalyzer ext, JavaAnalyzer ext,
        JSONAnalyzer ext, GenericAnalyzer]"

definition GetAnalyzer :: "AnalyzerRegistry \<Rightarrow> string \<Rightarrow> LanguageAnalyzer" where
  "GetAnalyzer ar language =
     (case ar language of Some analyzer \<Rightarrow> analyzer | None \<Rightarrow> GenericAnalyzer)"

section \<open>The code processor (internal/core/code_processor.go)\<close>

record CodeProcessor =
  supportedExtensions :: "string \<rightharpoonup> bool"
  languageMap :: "string \<rightharpoonup> string"
  analyzerRegistry :: AnalyzerRegistry

definition NewCodeProcessor :: "Analyzers \<Rightarrow> CodeProcessor" where
  "NewCodeProcessor ext =
     \<lparr>supportedExtensions = map_of
        [(''.ts'', True), (''.js'', True), (''.tsx'', True), (''.jsx'', True), (''.py'', True),
         (''.java'', True), (''.cpp'', True), (''.c'', True), (''.h'', True), (''.hpp'', True),
         (''.cs'', True), (''.go'', True), (''.rs'', True), (''.rb'', True), (''.php'', True),
         (''.json'', True), (''.yaml'', True), (''.yml'', True), (''.xml'', True),
         (''.md'', True), (''.txt'', True), (''.sql'', True)],
      languageMap = map_of
        [(''.ts'', ''typescript''), (''.tsx'', ''typescript''), (''.js'', ''javascript''),
         (''.jsx'', ''javascript''), (''.py'', ''python''), (''.java'', ''java''),
         (''.cpp'', ''cpp''), (''.c'', ''c''), (''.h'', ''c''), (''.hpp'', ''cpp''),
         (''.cs'', ''csharp''), (''.go'', ''go''), (''.rs'', ''rust''), (''.rb'', ''ruby''),
         (''.php'', ''php''), (''.json'', ''json''), (''.yaml'', ''yaml''), (''.yml'', ''yaml''),
         (''.xml'', ''xml''), (''.md'', ''markdown''), (''.sql'', ''sql'')],
      analyzerRegistry = NewAnalyzerRegistry ext\<rparr>"

text \<open>A lookup in a Go \<^verbatim>\<open>map[string]bool\<close> or \<^verbatim>\<open>map[string]string\<close> gives the zero value for a missing key.\<close>

definition lookupBool :: "(string \<rightharpoonup> bool) \<Rightarrow> string \<Rightarrow> bool" where
  "lookupBool m k = (case m k of Some b \<Rightarrow> b | None \<Rightarrow> False)"

definition lookupString :: "(string \<rightharpoonup> string) \<Rightarrow> string \<Rightarrow> string" where
  "lookupString m k = (case m k of Some s \<Rightarrow> s | None \<Rightarrow> '''')"

definition skipDirs :: "string \<rightharpoonup> bool" where
  "skipDirs = map_of
     [(''node_modules'', True), (''.git'', True), (''.svn'', True), (''dist'', True),
      (''build'', True), (''out'', True), (''target'', True), (''bin'', True), (''obj'', True),
      (''.vscode'', True), (''.idea'', True), (''__pycache__'', True), (''coverage'', True),
      (''.nyc_output'', True), (''tmp'', True), (''temp'', True), (''logs'', True),
      (''vendor'', True)]"

definition shouldSkipDirectory :: "string \<Rightarrow> bool" where
  "shouldSkipDirectory dirName =
     (if dirName = ''.'' then False
      else lookupBool skipDirs dirName \<or> HasPrefix dirName ''.'')"

text \<open>
  \<^verbatim>\<open>createCodeFile\<close> reads the file at \<^verbatim>\<open>filePath\<close>; \<open>d\<close> is what is on disk there.  The size
  is the number of bytes of the content.
\<close>

definition createCodeFile :: "(string \<Rightarrow> string) \<Rightarrow> CodeProcessor \<Rightarrow> string \<Rightarrow> fsnode \<Rightarrow> ioError + CodeFile" where
  "createCodeFile ul cp filePath d =
     (case d of
        FFile name (Some content) modTime \<Rightarrow>
          (let ext = ToLower ul (filepathExt filePath);
               language = lookupString (languageMap cp) ext;
               language = (if language = '''' then ''unknown'' else language)
           in Inr \<lparr>Path = filePath, Name = filepathBase filePath, Extension = ext,
                   Content = content, Language = language, Size = int (length content),
                   LastModified = modTime\<rparr>)
      | _ \<Rightarrow> Inl (ReadFileFailed filePath))"

text \<open>The callback that \<^verbatim>\<open>scanDirectory\<close> passes to \<^verbatim>\<open>filepath.WalkDir\<close>; \<open>files\<close> is its state.\<close>

definition scanCallback ::
  "(string \<Rightarrow> string) \<Rightarrow> CodeProcessor \<Rightarrow> string \<Rightarrow> string \<Rightarrow> fsnode \<Rightarrow> ioError option \<Rightarrow>
   CodeFile list \<Rightarrow> ioError option \<times> CodeFile list" where
  "scanCallback ul cp dirPath path d err files =
     (case err of
        Some e \<Rightarrow> (Some e, files)
      | None \<Rightarrow>
          (if IsDir d then
             (if path \<noteq> dirPath \<and> shouldSkipDirectory (nodeName d) then (Some SkipDir, files)
              else (None, files))
           else
             (let ext = ToLower ul (filepathExt path)
              in if lookupBool (supportedExtensions cp) ext then
                   (case createCodeFile ul cp path d of
                      Inl e \<Rightarrow> (None, files)
                    | Inr file \<Rightarrow> (None, files @ [file]))
                 else (None, files))))"

definition scanDirectory ::
  "(string \<Rightarrow> string) \<Rightarrow> CodeProcessor \<Rightarrow> string \<Rightarrow> fsnode \<Rightarrow> CodeFile list \<times> ioError option" where
  "scanDirectory ul cp dirPath tree =
     (case WalkDir dirPath tree (scanCallback ul cp dirPath) [] of
        (err, files) \<Rightarrow> (files, err))"

text \<open>
  The inner loop of \<^verbatim>\<open>extractDirectories\<close>.  \<^verbatim>\<open>directories\<close> is a \<^verbatim>\<open>map[string]bool\<close> used as
  a set; it is the list of its keys here, in the order of insertion.  Go's \<^verbatim>\<open>range\<close> over
  the map yields the keys in an order of its own choice: \<open>rangeOrder\<close> rearranges the keys
  into that order.
\<close>

function dirChain :: "string \<Rightarrow> string list \<Rightarrow> string list" where
  "dirChain dir directories =
     (if dir \<noteq> ''.'' \<and> dir \<noteq> ''/'' \<and> dir \<noteq> ''''
      then dirChain (filepathDir dir)
             (if dir \<in> set directories then directories else directories @ [dir])
      else directories)"
  by pat_completeness auto
termination
proof (relation "measure (\<lambda>(dir, directories).
         if dir = ''.'' \<or> dir = ''/'' \<or> dir = '''' then 0 else Suc (length dir))")
  show "wf (measure (\<lambda>(dir, directories :: string list).
         if dir = ''.'' \<or> dir = ''/'' \<or> dir = '''' then 0 else Suc (length dir)))"
    by simp
next
  fix dir :: string and directories :: "string list"
  assume stop: "dir \<noteq> ''.'' \<and> dir \<noteq> ''/'' \<and> dir \<noteq> ''''"
  define weight :: "string list \<Rightarrow> nat" where
    "weight cs = sum_list (map (\<lambda>c. Suc (length c)) cs)" for cs
  have Split_nonempty: "Split s sep \<noteq> []" for s sep
    by (induction s) (auto split: list.splits)
  have Split_single: "Split s sep = [x] \<Longrightarrow> x = s" for s sep x
    by (induction s arbitrary: x) (auto simp: Split_nonempty split: if_splits list.splits)
  have weight_Split: "weight (Split s sep) = Suc (length s)" for s sep
    by (induction s) (auto simp: weight_def Split_nonempty split: list.splits)
  have last_Split: "s \<noteq> [] \<Longrightarrow> last s = sep \<Longrightarrow> last (Split s sep) = []" for s sep
  proof (induction s)
    case Nil
    then show ?case by simp
  next
    case (Cons c s)
    show ?case
    proof (cases "s = []")
      case True
      then show ?thesis using Cons.prems by auto
    next
      case False
      with Cons have "last (Split s sep) = []" by simp
      then show ?thesis using Split_nonempty[of s sep] Split_single[of s sep] False
        by (cases "Split s sep") (auto split: if_splits)
    qed
  qed
  have weight_cleanStep:
    "weight (cleanStep rooted st c) + (if c = [] then 1 else 0) \<le> weight st + Suc (length c)"
    for rooted st c
    by (auto simp: cleanStep_def weight_def split: list.splits)
  have weight_foldl:
    "weight (foldl (cleanStep rooted) st cs) + length (filter (\<lambda>c. c = []) cs)
       \<le> weight st + weight cs" for rooted st cs
  proof (induction cs arbitrary: st)
    case Nil
    then show ?case by (simp add: weight_def)
  next
    case (Cons c cs)
    have "weight (foldl (cleanStep rooted) (cleanStep rooted st c) cs)
            + length (filter (\<lambda>c. c = []) cs)
          \<le> weight (cleanStep rooted st c) + weight cs"
      by (rule Cons.IH)
    moreover have "weight (c # cs) = Suc (length c) + weight cs"
      by (simp add: weight_def)
    ultimately show ?case using weight_cleanStep[of rooted st c] by auto
  qed
  have length_Join: "xs \<noteq> [] \<Longrightarrow> Suc (length (Join xs [sep])) = weight xs" for xs sep
    by (induction xs "[sep]" rule: Join.induct) (auto simp: weight_def)
  have weight_rev: "weight (rev xs) = weight xs" for xs
    by (simp add: weight_def rev_map[symmetric])
  have filter_last: "cs \<noteq> [] \<Longrightarrow> last cs = [] \<Longrightarrow> 1 \<le> length (filter (\<lambda>c. c = []) cs)"
    for cs :: "string list"
    by (induction cs) (auto split: if_splits)
  have Clean_shrinks:
    "Clean s = ''.'' \<or> Clean s = ''/'' \<or> length (Clean s) < length s"
    if "s \<noteq> []" "last s = CHR ''/''" for s
  proof (cases s)
    case Nil
    with that show ?thesis by simp
  next
    case (Cons c rest)
    show ?thesis
    proof (cases "c = CHR ''/''")
      case True
      let ?st = "foldl (cleanStep True) [] (Split rest CHR ''/'')"
      have cl: "Clean s = ''/'' @ Join (rev ?st) ''/''"
        using Cons True by (simp add: Clean_def)
      show ?thesis
      proof (cases "?st = []")
        case True
        then show ?thesis using cl by simp
      next
        case False
        have "last (Split rest CHR ''/'') = []"
        proof (cases "rest = []")
          case True
          then show ?thesis by simp
        next
          case False
          then show ?thesis using that Cons by (intro last_Split) auto
        qed
        then have "1 \<le> length (filter (\<lambda>c. c = []) (Split rest CHR ''/''))"
          using Split_nonempty by (intro filter_last) auto
        then have "Suc (weight ?st) \<le> weight (Split rest CHR ''/'')"
          using weight_foldl[of True "[]" "Split rest CHR ''/''"] by (simp add: weight_def)
        then have "weight ?st \<le> length rest"
          by (simp add: weight_Split)
        moreover have "Suc (length (Join (rev ?st) ''/'')) = weight ?st"
          using False length_Join[of "rev ?st" "CHR ''/''"] by (simp add: weight_rev)
        ultimately show ?thesis using cl Cons by simp
      qed
    next
      case False
      let ?st = "foldl (cleanStep False) [] (Split s CHR ''/'')"
      let ?body = "Join (rev ?st) ''/''"
      have cl: "Clean s = (if ?body = [] then ''.'' else ?body)"
        using Cons False by (simp add: Clean_def Let_def)
      show ?thesis
      proof (cases "?st = []")
        case True
        then show ?thesis using cl by simp
      next
        case nonempty: False
        have "last (Split s CHR ''/'') = []"
          using that by (intro last_Split) auto
        then have "1 \<le> length (filter (\<lambda>c. c = []) (Split s CHR ''/''))"
          using Split_nonempty by (intro filter_last) auto
        then have "Suc (weight ?st) \<le> weight (Split s CHR ''/'')"
          using weight_foldl[of False "[]" "Split s CHR ''/''"] by (simp add: weight_def)
        then have "weight ?st \<le> length s"
          by (simp add: weight_Split)
        moreover have "Suc (length ?body) = weight ?st"
          using nonempty length_Join[of "rev ?st" "CHR ''/''"] by (simp add: weight_rev)
        ultimately show ?thesis using cl by auto
      qed
    qed
  qed
  let ?pre = "rev (dropWhile (\<lambda>c. c \<noteq> CHR ''/'') (rev dir))"
  have len: "length ?pre \<le> length dir"
    by (simp add: le_trans[OF length_dropWhile_le])
  have shrinks: "filepathDir dir = ''.'' \<or> filepathDir dir = ''/''
                 \<or> length (filepathDir dir) < length dir"
  proof (cases "?pre = []")
    case True
    have "filepathDir dir = Clean []" unfolding filepathDir_def True ..
    then show ?thesis by (simp add: Clean_def)
  next
    case False
    then have "dropWhile (\<lambda>c. c \<noteq> CHR ''/'') (rev dir) \<noteq> []" by simp
    then have "hd (dropWhile (\<lambda>c. c \<noteq> CHR ''/'') (rev dir)) = CHR ''/''"
      using hd_dropWhile[of "\<lambda>c. c \<noteq> CHR ''/''" "rev dir"] by auto
    then have "last ?pre = CHR ''/''" using False by (simp add: last_rev)
    from Clean_shrinks[OF False this] len show ?thesis by (auto simp: filepathDir_def)
  qed
  show "((filepathDir dir, if dir \<in> set directories then directories else directories @ [dir]),
         dir, directories)
        \<in> measure (\<lambda>(dir, directories).
             if dir = ''.'' \<or> dir = ''/'' \<or> dir = '''' then 0 else Suc (length dir))"
    using stop shrinks by auto
qed

definition extractDirectories :: "(string list \<Rightarrow> string list) \<Rightarrow> CodeFile list \<Rightarrow> string list" where
  "extractDirectories rangeOrder files =
     rangeOrder (foldl (\<lambda>directories file. dirChain (filepathDir (Path file)) directories) [] files)"

definition createDirectoryEntity :: "(string \<Rightarrow> string) \<Rightarrow> string \<Rightarrow> string \<Rightarrow> Entity" where
  "createDirectoryEntity ul dirPath rootPath =
     (let relativePath = TrimPrefix dirPath rootPath;
          relativePath = TrimPrefix relativePath ''/'';
          baseName = filepathBase dirPath;
          baseName = (if baseName = ''.'' \<or> baseName = '''' then ''root'' else baseName)
      in graph_CreateEntity ul baseName EntityTypeDirectory
           [''path'' \<mapsto> PString dirPath, ''relativePath'' \<mapsto> PString relativePath,
            ''fullPath'' \<mapsto> PString dirPath])"

definition createFileEntity :: "(string \<Rightarrow> string) \<Rightarrow> CodeFile \<Rightarrow> Entity" where
  "createFileEntity ul file =
     (let lineCount = length (Split (Content file) CHR 0x0A)
      in graph_CreateEntity ul (Name file) EntityTypeFile
           [''path'' \<mapsto> PString (Path file), ''extension'' \<mapsto> PString (Extension file),
            ''language'' \<mapsto> PString (Language file), ''size'' \<mapsto> PInt (Size file),
            ''lastModified'' \<mapsto> PString (LastModified file),
            ''lineCount'' \<mapsto> PInt (int lineCount)])"

definition analyzeFile :: "(string \<Rightarrow> string) \<Rightarrow> CodeProcessor \<Rightarrow> CodeFile \<Rightarrow> analysis" where
  "analyzeFile ul cp file =
     (let fileEntity = createFileEntity ul file;
          analyzer = GetAnalyzer (analyzerRegistry cp) (Language file)
      in Analyze analyzer file fileEntity)"

text \<open>\<^verbatim>\<open>entity.Properties["path"].(string)\<close> with \<^verbatim>\<open>ok && path == p\<close>.\<close>

definition pathIs :: "Entity \<Rightarrow> string \<Rightarrow> bool" where
  "pathIs entity p = (case Properties entity ''path'' of Some (PString path) \<Rightarrow> path = p | _ \<Rightarrow> False)"

definition createFileDirectoryRelationships :: "CodeFile \<Rightarrow> Entity list \<Rightarrow> Relationship list" where
  "createFileDirectoryRelationships file allEntities =
     (let fileDir = filepathDir (Path file);
          found = foldl (\<lambda>(dirEntity, fileEntity) entity.
                    (if Type entity = EntityTypeDirectory \<and> pathIs entity fileDir
                     then Some entity else dirEntity,
                     if Type entity = EntityTypeFile \<and> pathIs entity (Path file)
                     then Some entity else fileEntity))
                  (None, None) allEntities
      in (case found of
            (Some dirEntity, Some fileEntity) \<Rightarrow>
              [graph_CreateRelationship (ID dirEntity) (ID fileEntity)
                 RelationshipTypeContains Map.empty]
          | _ \<Rightarrow> []))"

definition createImportRelationships :: "Entity list \<Rightarrow> Relationship list" where
  "createImportRelationships ents =
     (let importEntities = filter (\<lambda>entity. Type entity = EntityTypeImport) ents;
          moduleEntities = filter (\<lambda>entity. Type entity = EntityTypeFile
                                         \<or> Type entity = EntityTypeModule) ents
      in concat (map (\<lambda>importEntity.
           (case Properties importEntity ''source'' of
              Some (PString source) \<Rightarrow>
                (case find (\<lambda>moduleEntity.
                        Contains (Label moduleEntity) source \<and>
                        (case Properties moduleEntity ''path'' of
                           Some (PString path) \<Rightarrow> Contains path source
                         | _ \<Rightarrow> False)) moduleEntities of
                   Some moduleEntity \<Rightarrow>
                     [graph_CreateRelationship (ID importEntity) (ID moduleEntity)
                        RelationshipTypeReferences Map.empty]
                 | None \<Rightarrow> [])
            | _ \<Rightarrow> [])) importEntities))"

text \<open>The loop of \<^verbatim>\<open>AnalyzeCodebase\<close> over the scanned files; a file whose analysis fails is skipped.\<close>

fun processFiles ::
  "(string \<Rightarrow> string) \<Rightarrow> CodeProcessor \<Rightarrow> CodeFile list \<Rightarrow> Entity list \<Rightarrow> Relationship list \<Rightarrow>
   Entity list \<times> Relationship list" where
  "processFiles ul cp [] allEntities allRelationships = (allEntities, allRelationships)"
| "processFiles ul cp (file # rest) allEntities allRelationships =
     (case analyzeFile ul cp file of
        Inl err \<Rightarrow> processFiles ul cp rest allEntities allRelationships
      | Inr (ents, rels) \<Rightarrow>
          (let allEntities = allEntities @ ents;
               allRelationships = allRelationships @ rels;
               fileRelationships = createFileDirectoryRelationships file allEntities
           in processFiles ul cp rest allEntities (allRelationships @ fileRelationships)))"

definition AnalyzeCodebase ::
  "(string \<Rightarrow> string) \<Rightarrow> (string list \<Rightarrow> string list) \<Rightarrow> CodeProcessor \<Rightarrow> string \<Rightarrow> fsnode \<Rightarrow>
   ioError + Entity list \<times> Relationship list" where
  "AnalyzeCodebase ul rangeOrder cp rootPath tree =
     (case scanDirectory ul cp rootPath tree of
        (files, Some err) \<Rightarrow> Inl err
      | (files, None) \<Rightarrow>
          (let directories = extractDirectories rangeOrder files;
               allEntities = map (\<lambda>dir. createDirectoryEntity ul dir rootPath) directories
           in (case processFiles ul cp files allEntities [] of
                 (allEntities, allRelationships) \<Rightarrow>
                   Inr (allEntities,
                        allRelationships @ createImportRelationships allEntities))))"

text \<open>
  The tree without the directories that the scan prunes: every directory below the root
  whose name \<^verbatim>\<open>shouldSkipDirectory\<close> accepts is removed with all it holds.  The root
  itself stays.  And the tree without the files whose extension is not supported.  Both
  are used to state what the scan does not depend on.
\<close>

fun pruneNode :: "fsnode \<Rightarrow> fsnode"
and pruneEntries :: "fsnode list \<Rightarrow> fsnode list" where
  "pruneNode (FDir name entries) = FDir name (pruneEntries entries)"
| "pruneNode (FFile name content modTime) = FFile name content modTime"
| "pruneNode (FUnreadable name) = FUnreadable name"
| "pruneEntries [] = []"
| "pruneEntries (d # rest) =
     (if IsDir d \<and> shouldSkipDirectory (nodeName d) then pruneEntries rest
      else pruneNode d # pruneEntries rest)"

text \<open>The paths under which the walk reports the nodes below a directory at \<open>path\<close>.\<close>

fun pathsOf :: "string \<Rightarrow> fsnode \<Rightarrow> string list"
and pathsBelow :: "string \<Rightarrow> fsnode list \<Rightarrow> string list" where
  "pathsOf path (FDir name entries) = path # pathsBelow path entries"
| "pathsOf path (FFile name content modTime) = [path]"
| "pathsOf path (FUnreadable name) = [path]"
| "pathsBelow path [] = []"
| "pathsBelow path (d # rest) =
     pathsOf (filepathJoin path (nodeName d)) d @ pathsBelow path rest"

text \<open>
  The tree at \<open>path\<close> without the files whose extension \<^verbatim>\<open>scanDirectory\<close> does not
  support, and the paths of the nodes strictly below the root of a tree.
\<close>

fun dropNode :: "(string \<Rightarrow> string) \<Rightarrow> CodeProcessor \<Rightarrow> string \<Rightarrow> fsnode \<Rightarrow> fsnode"
and dropEntries :: "(string \<Rightarrow> string) \<Rightarrow> CodeProcessor \<Rightarrow> string \<Rightarrow> fsnode list \<Rightarrow> fsnode list" where
  "dropNode ul cp path (FDir name entries) = FDir name (dropEntries ul cp path entries)"
| "dropNode ul cp path (FFile name content modTime) = FFile name content modTime"
| "dropNode ul cp path (FUnreadable name) = FUnreadable name"
| "dropEntries ul cp path [] = []"
| "dropEntries ul cp path (d # rest) =
     (if \<not> IsDir d \<and>
         \<not> lookupBool (supportedExtensions cp)
             (ToLower ul (filepathExt (filepathJoin path (nodeName d))))
      then dropEntries ul cp path rest
      else dropNode ul cp (filepathJoin path (nodeName d)) d # dropEntries ul cp path rest)"

fun below :: "string \<Rightarrow> fsnode \<Rightarrow> string list" where
  "below path (FDir name entries) = pathsBelow path entries"
| "below path (FFile name content modTime) = []"
| "below path (FUnreadable name) = []"

section \<open>Example trees\<close>

text \<open>
  What the five language analyzers return on a file in which none of their regular
  expressions matches (an empty file, for one): the file entity alone and no relationship.
\<close>

definition fileOnly :: Analyzers where
  "fileOnly =
     \<lparr>analyzeGoFile = (\<lambda>file fileEntity. Inr ([fileEntity], [])),
      analyzeTypeScriptFile = (\<lambda>file fileEntity. Inr ([fileEntity], [])),
      analyzePythonFile = (\<lambda>file fileEntity. Inr ([fileEntity], [])),
      analyzeJavaFile = (\<lambda>file fileEntity. Inr ([fileEntity], [])),
      analyzeJSONFile = (\<lambda>file fileEntity. Inr ([fileEntity], []))\<rparr>"

text \<open>
  A walk root that is itself called \<^verbatim>\<open>node_modules\<close>, with a \<^verbatim>\<open>.git\<close> and a \<^verbatim>\<open>vendor\<close> directory
  and one source file in it; and a directory with a picture and a text file.
\<close>

definition vendoredTree :: fsnode where
  "vendoredTree =
     FDir ''node_modules''
       [FDir ''.git'' [FFile ''config.json'' (Some '''') ''2024-05-01T10:00:00Z''],
        FFile ''main.go'' (Some '''') ''2024-05-01T10:00:00Z'',
        FDir ''vendor'' [FFile ''lib.go'' (Some '''') ''2024-05-01T10:00:00Z'']]"

definition notesTree :: fsnode where
  "notesTree =
     FDir ''docs''
       [FFile ''logo.png'' (Some ''PNG'') ''2024-05-01T10:00:00Z'',
        FFile ''notes.txt'' (Some ''hello'') ''2024-05-01T10:00:00Z'']"

definition notesFile :: CodeFile where
  "notesFile =
     \<lparr>Path = ''docs/notes.txt'', Name = ''notes.txt'', Extension = ''.txt'', Content = ''hello'',
      Language = ''unknown'', Size = 5, LastModified = ''2024-05-01T10:00:00Z''\<rparr>"

text \<open>
  The tree of the walk root \<^verbatim>\<open>a\<close> with the files \<^verbatim>\<open>a/b/x.go\<close> and \<^verbatim>\<open>a/y.go\<close>, whatever their
  contents and modification times are, and the two files as \<^verbatim>\<open>createCodeFile\<close> reads them.
\<close>

definition scaffoldTree :: "string \<Rightarrow> string \<Rightarrow> string \<Rightarrow> string \<Rightarrow> fsnode" where
  "scaffoldTree contentX modTimeX contentY modTimeY =
     FDir ''a'' [FDir ''b'' [FFile ''x.go'' (Some contentX) modTimeX],
                 FFile ''y.go'' (Some contentY) modTimeY]"

definition scaffoldX :: "string \<Rightarrow> string \<Rightarrow> CodeFile" where
  "scaffoldX content modTime =
     \<lparr>Path = ''a/b/x.go'', Name = ''x.go'', Extension = ''.go'', Content = content,
      Language = ''go'', Size = int (length content), LastModified = modTime\<rparr>"

definition scaffoldY :: "string \<Rightarrow> string \<Rightarrow> CodeFile" where
  "scaffoldY content modTime =
     \<lparr>Path = ''a/y.go'', Name = ''y.go'', Extension = ''.go'', Content = content,
      Language = ''go'', Size = int (length content), LastModified = modTime\<rparr>"

text \<open>
  An id is the hex print of its key; these read the key of an entity, and type and the keys
  of the two ends of a relationship, back from the ids.
\<close>

definition keyOf :: "Entity \<Rightarrow> string" where
  "keyOf entity = unhex (ID entity)"

definition endsOf :: "Relationship \<Rightarrow> string \<times> RelationshipType \<times> string" where
  "endsOf relationship =
     (unhex (Source relationship), RType relationship, unhex (Target relationship))"

section \<open>Concrete instances\<close>

definition entA :: Entity where
  "entA = \<lparr>ID = ''a'', Label = ''A'', Type = ''CLASS'', Properties = Map.empty, Confidence = 1\<rparr>"

definition entB :: Entity where
  "entB = \<lparr>ID = ''b'', Label = ''B'', Type = ''FUNCTION'', Properties = Map.empty, Confidence = 1\<rparr>"

definition entC :: Entity where
  "entC = \<lparr>ID = ''c'', Label = ''C'', Type = ''FUNCTION'', Properties = Map.empty, Confidence = 1\<rparr>"

definition edge :: "string \<Rightarrow> string \<Rightarrow> string \<Rightarrow> real \<Rightarrow> Properties \<Rightarrow> Relationship" where
  "edge rid src tgt conf props =
     \<lparr>RID = rid, Source = src, Target = tgt, RType = ''CONTAINS'', RProperties = props,
      RConfidence = conf\<rparr>"

section \<open>Well-formed relationship tables\<close>

text \<open>
  The merge that \<^verbatim>\<open>CreateEntity\<close> applies to an existing record, and the conditions under
  which the relationship table behaves as a table keyed by (source, target, type): every
  entry is stored under its own, non-empty id, and no two entries have the same source,
  target and type.  \<open>idsAgree\<close> says of a list of relationships that ids are not empty and
  that two of them with the same id have the same source, target and type, as ids
  derived from these three have.
\<close>

definition mergeEntity :: "Entity \<Rightarrow> Entity \<Rightarrow> Entity" where
  "mergeEntity x e =
     x\<lparr>Label := Label e, Confidence := max (Confidence e) (Confidence x),
       Properties := Properties x ++ Properties e\<rparr>"

definition edgeOf :: "Relationship \<Rightarrow> string \<times> string \<times> string" where
  "edgeOf r = (Source r, Target r, RType r)"

definition wellKeyed :: "(string \<times> Relationship) list \<Rightarrow> bool" where
  "wellKeyed rels \<longleftrightarrow>
     distinct (map fst rels) \<and>
     (\<forall>(k, x) \<in> set rels. k = RID x \<and> k \<noteq> '''') \<and>
     distinct (map (\<lambda>(k, x). edgeOf x) rels)"

definition idsAgree :: "Relationship list \<Rightarrow> bool" where
  "idsAgree rs \<longleftrightarrow>
     (\<forall>a \<in> set rs. RID a \<noteq> '''' \<and> (\<forall>b \<in> set rs. RID a = RID b \<longrightarrow> edgeOf a = edgeOf b))"

text \<open>
  One upsert of a batch: the entities, then the relationships.  \<open>endpointsExist\<close> is
  the check at the head of \<^verbatim>\<open>CreateRelationship\<close>.
\<close>

definition upsertBatch :: "InMemoryDatabase \<Rightarrow> Entity list \<Rightarrow> Relationship list \<Rightarrow> InMemoryDatabase" where
  "upsertBatch db es rs = snd (CreateRelationships (snd (CreateEntities db es)) rs)"

definition endpointsExist :: "InMemoryDatabase \<Rightarrow> Relationship \<Rightarrow> bool" where
  "endpointsExist db r \<longleftrightarrow> entities db (Source r) \<noteq> None \<and> entities db (Target r) \<noteq> None"

definition endpointError :: "InMemoryDatabase \<Rightarrow> Relationship \<Rightarrow> error" where
  "endpointError db r =
     (if entities db (Source r) = None then SourceNotFound (Source r)
      else TargetNotFound (Target r))"

text \<open>
  A stored record is saturated by a list of incoming records when merging all of them
  into it, in order, leaves it as it is.  A table agrees with a batch when it is well
  keyed and no entry is stored under the id of a batch relationship with another
  source, target or type.
\<close>

definition satE :: "Entity \<Rightarrow> Entity list \<Rightarrow> bool" where
  "satE y F \<longleftrightarrow>
     (F \<noteq> [] \<longrightarrow> Label y = Label (last F)) \<and>
     (\<forall>e \<in> set F. Confidence e \<le> Confidence y) \<and>
     foldl (++) Map.empty (map Properties F) \<subseteq>\<^sub>m Properties y"

definition satR :: "Relationship \<Rightarrow> Relationship list \<Rightarrow> bool" where
  "satR y F \<longleftrightarrow>
     (\<forall>r \<in> set F. RConfidence r \<le> RConfidence y) \<and>
     foldl (++) Map.empty (map RProperties F) \<subseteq>\<^sub>m RProperties y"

definition agrees :: "Relationship list \<Rightarrow> (string \<times> Relationship) list \<Rightarrow> bool" where
  "agrees B L \<longleftrightarrow>
     wellKeyed L \<and> (\<forall>p \<in> set L. \<forall>r \<in> set B. RID r = fst p \<longrightarrow> edgeOf (snd p) = edgeOf r)"

text \<open>
  A batch in which two relationships with different targets carry the same id, and a
  batch whose ids follow source, target and type.
\<close>

definition collidingBatch :: "Relationship list" where
  "collidingBatch =
     [edge ''x'' ''a'' ''b'' 0.9 Map.empty, edge ''x'' ''a'' ''c'' 1 Map.empty,
      edge ''y'' ''a'' ''b'' 0.5 Map.empty]"

definition derivedBatch :: "Relationship list" where
  "derivedBatch =
     [edge ''ab'' ''a'' ''b'' 0.5 [''k'' \<mapsto> PInt 1], edge ''ab'' ''a'' ''b'' 0.9 [''k'' \<mapsto> PInt 2],
      edge ''ba'' ''b'' ''a'' 1 Map.empty, edge ''ab'' ''a'' ''b'' 0.7 [''j'' \<mapsto> PInt 3]]"

text \<open>
  A stand-in for the standard library's mapping of strings with bytes above \<^verbatim>\<open>0x7f\<close>; the
  instances below contain no such byte.
\<close>

definition bytewiseLower :: "string \<Rightarrow> string" where
  "bytewiseLower s = map lowerByte s"

section \<open>Properties of the store\<close>

lemma CreateEntity_returns_nil: "fst (CreateEntity db entity) = None"
  by (simp add: CreateEntity_def Let_def split: option.splits)

lemma CreateEntity_entities:
  "entities (snd (CreateEntity db e)) =
     (entities db)(ID e \<mapsto>
       (case entities db (ID e) of
          None \<Rightarrow> e
        | Some x \<Rightarrow> x\<lparr>Label := Label e,
                       Confidence := max (Confidence e) (Confidence x),
                       Properties := Properties x ++ Properties e\<rparr>))"
  by (auto simp: CreateEntity_def Let_def max_def split: option.splits)

lemma CreateEntity_relationships:
  "relationships (snd (CreateEntity db e)) = relationships db"
  by (simp add: CreateEntity_def Let_def split: option.splits)

lemma CreateEntities_returns_nil: "fst (CreateEntities db es) = None"
proof (induction es arbitrary: db)
  case Nil
  then show ?case by simp
next
  case (Cons e es)
  obtain db' where "CreateEntity db e = (None, db')"
    using CreateEntity_returns_nil[of db e] by (cases "CreateEntity db e") auto
  then show ?case using Cons.IH[of db'] by simp
qed

lemma CreateEntities_Cons:
  "snd (CreateEntities db (e # es)) = snd (CreateEntities (snd (CreateEntity db e)) es)"
proof -
  obtain db' where "CreateEntity db e = (None, db')"
    using CreateEntity_returns_nil[of db e] by (cases "CreateEntity db e") auto
  then show ?thesis by simp
qed

declare CreateEntities.simps(2) [simp del]

lemma CreateEntities_relationships:
  "relationships (snd (CreateEntities db es)) = relationships db"
  by (induction es arbitrary: db)
     (simp_all add: CreateEntities_Cons CreateEntity_relationships)

lemma CreateEntities_dom:
  "dom (entities (snd (CreateEntities db es))) = dom (entities db) \<union> ID ` set es"
  by (induction es arbitrary: db)
     (auto simp: CreateEntities_Cons CreateEntity_entities)

text \<open>
  The record that a run of upserts leaves under an id: the first upsert of a new id
  stores the entity as it is, every later one merges into the stored record.
\<close>

lemma CreateEntities_other:
  "\<forall>e \<in> set es. ID e \<noteq> i \<Longrightarrow> entities (snd (CreateEntities db es)) i = entities db i"
  by (induction es arbitrary: db)
     (auto simp: CreateEntities_Cons CreateEntity_entities)

lemma CreateEntities_confidence_present:
  assumes "entities db i = Some x" "\<forall>e \<in> set es. ID e = i"
  shows "\<exists>y. entities (snd (CreateEntities db es)) i = Some y \<and>
             Confidence y = Max (insert (Confidence x) (Confidence ` set es))"
  using assms
proof (induction es arbitrary: db x)
  case Nil
  then show ?case by simp
next
  case (Cons e es)
  let ?x' = "x\<lparr>Label := Label e, Confidence := max (Confidence e) (Confidence x),
               Properties := Properties x ++ Properties e\<rparr>"
  have "entities (snd (CreateEntity db e)) i = Some ?x'"
    using Cons.prems by (simp add: CreateEntity_entities)
  from Cons.IH[OF this] Cons.prems(2)
  obtain y where y: "entities (snd (CreateEntities (snd (CreateEntity db e)) es)) i = Some y"
    "Confidence y = Max (insert (Confidence ?x') (Confidence ` set es))"
    by auto
  have "Max (insert (max (Confidence e) (Confidence x)) (Confidence ` set es))
        = Max (insert (Confidence x) (insert (Confidence e) (Confidence ` set es)))"
  proof (cases "es = []")
    case True
    then show ?thesis by (simp add: max.commute)
  next
    case False
    then show ?thesis by (simp add: max.commute max.left_commute)
  qed
  then show ?case using y by (simp add: CreateEntities_Cons)
qed

text \<open>
  C2.  An upsert of an entity never fails.  When no record has the id of the entity, the
  entity is stored as it is.  When a record has it, the stored record keeps its id and
  type, has the incoming label, the larger of the two confidences, and for every key the
  incoming property value when there is one and the existing value otherwise.  After the
  upserts of a non-empty list of entities that all have one id which the store did not
  have, the stored confidence is the maximum of their confidences.
\<close>

theorem CreateEntity_merge:
  "fst (CreateEntity db e) = None \<and>
   relationships (snd (CreateEntity db e)) = relationships db \<and>
   (\<forall>i. i \<noteq> ID e \<longrightarrow> entities (snd (CreateEntity db e)) i = entities db i) \<and>
   (entities db (ID e) = None \<longrightarrow> entities (snd (CreateEntity db e)) (ID e) = Some e) \<and>
   (\<forall>x. entities db (ID e) = Some x \<longrightarrow>
      (\<exists>y. entities (snd (CreateEntity db e)) (ID e) = Some y \<and>
           ID y = ID x \<and> Type y = Type x \<and> Label y = Label e \<and>
           Confidence y = max (Confidence e) (Confidence x) \<and>
           (\<forall>k. Properties y k =
                  (case Properties e k of Some v \<Rightarrow> Some v | None \<Rightarrow> Properties x k)))) \<and>
   (es \<noteq> [] \<longrightarrow> (\<forall>e' \<in> set es. ID e' = i) \<longrightarrow> entities db i = None \<longrightarrow>
      (\<exists>y. entities (snd (CreateEntities db es)) i = Some y \<and>
           Confidence y = Max (Confidence ` set es)))"
proof (intro conjI allI impI)
  show "fst (CreateEntity db e) = None" by (rule CreateEntity_returns_nil)
  show "relationships (snd (CreateEntity db e)) = relationships db"
    by (rule CreateEntity_relationships)
next
  fix j assume "j \<noteq> ID e"
  then show "entities (snd (CreateEntity db e)) j = entities db j"
    by (simp add: CreateEntity_entities)
next
  assume "entities db (ID e) = None"
  then show "entities (snd (CreateEntity db e)) (ID e) = Some e"
    by (simp add: CreateEntity_entities)
next
  fix x assume "entities db (ID e) = Some x"
  then show "\<exists>y. entities (snd (CreateEntity db e)) (ID e) = Some y \<and>
           ID y = ID x \<and> Type y = Type x \<and> Label y = Label e \<and>
           Confidence y = max (Confidence e) (Confidence x) \<and>
           (\<forall>k. Properties y k =
                  (case Properties e k of Some v \<Rightarrow> Some v | None \<Rightarrow> Properties x k))"
    by (simp add: CreateEntity_entities map_add_def)
next
  assume ne: "es \<noteq> []" and same: "\<forall>e' \<in> set es. ID e' = i" and absent: "entities db i = None"
  obtain e1 rest where es: "es = e1 # rest" using ne by (cases es) auto
  have id1: "ID e1 = i" using same es by simp
  have "entities (snd (CreateEntity db e1)) i = Some e1"
    using absent id1 by (simp add: CreateEntity_entities)
  from CreateEntities_confidence_present[OF this, of rest] same es
  show "\<exists>y. entities (snd (CreateEntities db es)) i = Some y \<and>
           Confidence y = Max (Confidence ` set es)"
    by (simp add: CreateEntities_Cons)
qed

theorem CreateEntity_merge_witness:
  "(let db = \<lparr>entities = [''a'' \<mapsto> \<lparr>ID = ''a'', Label = ''Old'', Type = ''CLASS'',
                                  Properties = [''k'' \<mapsto> PInt 1, ''j'' \<mapsto> PInt 2],
                                  Confidence = 0.5\<rparr>],
              relationships = []\<rparr>;
        e = \<lparr>ID = ''a'', Label = ''New'', Type = ''FUNCTION'',
             Properties = [''k'' \<mapsto> PInt 7], Confidence = 0.9\<rparr>
    in \<exists>y. entities (snd (CreateEntity db e)) ''a'' = Some y \<and> Type y = ''CLASS'' \<and>
           Label y = ''New'' \<and> Confidence y = 0.9 \<and>
           Properties y ''k'' = Some (PInt 7) \<and> Properties y ''j'' = Some (PInt 2)) \<and>
   (let e = \<lparr>ID = ''b'', Label = ''B'', Type = ''CLASS'', Properties = Map.empty,
             Confidence = 0.3\<rparr>
    in entities (snd (CreateEntity NewInMemoryDatabase e)) ''b'' = Some e) \<and>
   (\<exists>y. entities (snd (CreateEntities NewInMemoryDatabase
           [\<lparr>ID = ''c'', Label = ''C1'', Type = ''CLASS'', Properties = Map.empty, Confidence = 0.4\<rparr>,
            \<lparr>ID = ''c'', Label = ''C2'', Type = ''CLASS'', Properties = Map.empty, Confidence = 0.8\<rparr>,
            \<lparr>ID = ''c'', Label = ''C3'', Type = ''CLASS'', Properties = Map.empty, Confidence = 0.6\<rparr>]))
          ''c'' = Some y \<and> Confidence y = 0.8)"
proof (intro conjI)
  let ?x = "\<lparr>ID = ''a'', Label = ''Old'', Type = ''CLASS'',
             Properties = [''k'' \<mapsto> PInt 1, ''j'' \<mapsto> PInt 2], Confidence = 0.5\<rparr>"
  let ?db = "\<lparr>entities = [''a'' \<mapsto> ?x], relationships = []\<rparr>"
  let ?e = "\<lparr>ID = ''a'', Label = ''New'', Type = ''FUNCTION'',
             Properties = [''k'' \<mapsto> PInt 7], Confidence = 0.9\<rparr>"
  have "entities ?db (ID ?e) = Some ?x" by simp
  with CreateEntity_merge[of ?db ?e "[]" "''a''"]
  obtain y where "entities (snd (CreateEntity ?db ?e)) (ID ?e) = Some y"
    "ID y = ID ?x" "Type y = Type ?x" "Label y = Label ?e"
    "Confidence y = max (Confidence ?e) (Confidence ?x)"
    "\<forall>k. Properties y k = (case Properties ?e k of Some v \<Rightarrow> Some v | None \<Rightarrow> Properties ?x k)"
    by blast
  then show "let db = ?db; e = ?e
    in \<exists>y. entities (snd (CreateEntity db e)) ''a'' = Some y \<and> Type y = ''CLASS'' \<and>
           Label y = ''New'' \<and> Confidence y = 0.9 \<and>
           Properties y ''k'' = Some (PInt 7) \<and> Properties y ''j'' = Some (PInt 2)"
    by (simp add: Let_def)
next
  let ?e = "\<lparr>ID = ''b'', Label = ''B'', Type = ''CLASS'', Properties = Map.empty,
             Confidence = 0.3\<rparr>"
  have "entities NewInMemoryDatabase (ID ?e) = None" by (simp add: NewInMemoryDatabase_def)
  with CreateEntity_merge[of NewInMemoryDatabase ?e "[]" "''b''"]
  show "let e = ?e in entities (snd (CreateEntity NewInMemoryDatabase e)) ''b'' = Some e"
    by (simp add: Let_def)
next
  let ?es = "[\<lparr>ID = ''c'', Label = ''C1'', Type = ''CLASS'', Properties = Map.empty, Confidence = 0.4\<rparr>,
            \<lparr>ID = ''c'', Label = ''C2'', Type = ''CLASS'', Properties = Map.empty, Confidence = 0.8\<rparr>,
            \<lparr>ID = ''c'', Label = ''C3'', Type = ''CLASS'', Properties = Map.empty, Confidence = 0.6\<rparr>]"
  have "?es \<noteq> []" "\<forall>e' \<in> set ?es. ID e' = ''c''" "entities NewInMemoryDatabase ''c'' = None"
    by (simp_all add: NewInMemoryDatabase_def)
  with CreateEntity_merge[of NewInMemoryDatabase "hd ?es" ?es "''c''"]
  obtain y where "entities (snd (CreateEntities NewInMemoryDatabase ?es)) ''c'' = Some y"
    "Confidence y = Max (Confidence ` set ?es)" by blast
  then show "\<exists>y. entities (snd (CreateEntities NewInMemoryDatabase ?es)) ''c'' = Some y \<and>
                 Confidence y = 0.8"
    by simp
qed

lemma CreateRelationship_missing:
  assumes "entities db (Source r) = None \<or> entities db (Target r) = None"
  shows "CreateRelationship db r =
           (Some (if entities db (Source r) = None then SourceNotFound (Source r)
                  else TargetNotFound (Target r)), db)"
  using assms by (auto simp: CreateRelationship_def)

lemma CreateRelationship_upsertRel:
  assumes "entities db (Source r) \<noteq> None" "entities db (Target r) \<noteq> None"
  shows "CreateRelationship db r = (None, db\<lparr>relationships := upsertRel (relationships db) r\<rparr>)"
  using assms
  by (auto simp: CreateRelationship_def upsertRel_def mergeRel_def Let_def
           split: prod.splits option.splits)

lemma CreateRelationship_entities: "entities (snd (CreateRelationship db r)) = entities db"
proof (cases "entities db (Source r) = None \<or> entities db (Target r) = None")
  case True
  then show ?thesis by (simp add: CreateRelationship_missing)
next
  case False
  then show ?thesis by (simp add: CreateRelationship_upsertRel)
qed

lemma storeEntities_CreateEntities: "storeEntities db es = (None, snd (CreateEntities db es))"
proof (induction es arbitrary: db)
  case Nil
  then show ?case by simp
next
  case (Cons e es)
  obtain db' where step: "CreateEntity db e = (None, db')"
    using CreateEntity_returns_nil[of db e] by (cases "CreateEntity db e") auto
  then show ?case using Cons.IH[of db'] by (simp add: CreateEntities_Cons)
qed

text \<open>The counter and the log of the relationship loop are accumulators.\<close>

lemma storeRelationships_acc:
  "storeRelationships db rs n logged =
     (case storeRelationships db rs 0 [] of (db', m, l) \<Rightarrow> (db', n + m, logged @ l))"
proof (induction rs arbitrary: db n logged)
  case Nil
  then show ?case by simp
next
  case (Cons r rs)
  obtain res db' where step: "CreateRelationship db r = (res, db')"
    by (cases "CreateRelationship db r") auto
  obtain d m l where rest: "storeRelationships db' rs 0 [] = (d, m, l)"
    by (cases "storeRelationships db' rs 0 []") auto
  show ?case
  proof (cases res)
    case None
    have "storeRelationships db' rs (Suc n) logged = (d, Suc n + m, logged @ l)"
      using Cons.IH[of db' "Suc n" logged] rest by simp
    moreover have "storeRelationships db' rs (Suc 0) [] = (d, Suc 0 + m, l)"
      using Cons.IH[of db' "Suc 0" "[]"] rest by simp
    ultimately show ?thesis using step None by simp
  next
    case (Some err)
    have "storeRelationships db' rs n (logged @ [(r, err)]) = (d, n + m, (logged @ [(r, err)]) @ l)"
      using Cons.IH[of db' n "logged @ [(r, err)]"] rest by simp
    moreover have "storeRelationships db' rs 0 [(r, err)] = (d, 0 + m, [(r, err)] @ l)"
      using Cons.IH[of db' 0 "[(r, err)]"] rest by simp
    ultimately show ?thesis using step Some by simp
  qed
qed

lemma storeRelationships_append:
  "storeRelationships db (rs1 @ rs2) n logged =
     (case storeRelationships db rs1 n logged of
        (db', n', logged') \<Rightarrow> storeRelationships db' rs2 n' logged')"
  by (induction rs1 arbitrary: db n logged) (auto split: prod.splits option.splits)

lemma storeRelationships_entities:
  "entities (fst (storeRelationships db rs n logged)) = entities db"
proof (induction rs arbitrary: db n logged)
  case Nil
  then show ?case by simp
next
  case (Cons r rs)
  obtain res db' where step: "CreateRelationship db r = (res, db')"
    by (cases "CreateRelationship db r") auto
  then have "entities db' = entities db"
    using CreateRelationship_entities[of db r] by simp
  then show ?case using Cons.IH[of db'] step by (cases res) auto
qed

lemma storeRelationships_total:
  "storeRelationships db rs 0 [] = (db', m, l) \<Longrightarrow> m + length l = length rs"
proof (induction rs arbitrary: db db' m l)
  case Nil
  then show ?case by simp
next
  case (Cons r rs)
  obtain res d where step: "CreateRelationship db r = (res, d)"
    by (cases "CreateRelationship db r") auto
  obtain d2 m2 l2 where rest: "storeRelationships d rs 0 [] = (d2, m2, l2)"
    by (cases "storeRelationships d rs 0 []") auto
  have len: "m2 + length l2 = length rs" using Cons.IH[OF rest] .
  show ?case
  proof (cases res)
    case None
    have "storeRelationships d rs (Suc 0) [] = (d2, Suc 0 + m2, l2)"
      using storeRelationships_acc[of d rs "Suc 0" "[]"] rest by simp
    then show ?thesis using Cons.prems step None len by auto
  next
    case (Some err)
    have "storeRelationships d rs 0 [(r, err)] = (d2, 0 + m2, [(r, err)] @ l2)"
      using storeRelationships_acc[of d rs 0 "[(r, err)]"] rest by simp
    then show ?thesis using Cons.prems step Some len by auto
  qed
qed

text \<open>
  C3.  A relationship with an endpoint that is not a key of the entity map is refused:
  \<open>CreateRelationship\<close> returns an error and the store it returns is the store it was
  given.  \<open>StoreKnowledgeGraph\<close> never returns an error over the in-memory store, and every
  relationship of the batch is either counted as stored or logged as failed.  A
  relationship \<open>r\<close> with an endpoint that is neither in the store nor in the batch of
  entities is logged, and the rest of the batch is processed as if \<open>r\<close> were not there:
  the final store and the count of successes are those of the batch without \<open>r\<close>.
\<close>

theorem referential_integrity_per_record:
  "(entities db (Source r) = None \<or> entities db (Target r) = None \<longrightarrow>
      fst (CreateRelationship db r) \<noteq> None \<and> snd (CreateRelationship db r) = db) \<and>
   returned (StoreKnowledgeGraph db es rs) = None \<and>
   successfulRelationships (StoreKnowledgeGraph db es rs)
     + length (failures (StoreKnowledgeGraph db es rs)) = length rs \<and>
   (Source r \<notin> dom (entities db) \<union> ID ` set es \<or>
    Target r \<notin> dom (entities db) \<union> ID ` set es \<longrightarrow>
      (\<exists>err. (r, err) \<in> set (failures (StoreKnowledgeGraph db es (rs1 @ r # rs2)))) \<and>
      database (StoreKnowledgeGraph db es (rs1 @ r # rs2))
        = database (StoreKnowledgeGraph db es (rs1 @ rs2)) \<and>
      successfulRelationships (StoreKnowledgeGraph db es (rs1 @ r # rs2))
        = successfulRelationships (StoreKnowledgeGraph db es (rs1 @ rs2)))"
proof (intro conjI impI)
  assume "entities db (Source r) = None \<or> entities db (Target r) = None"
  then show "fst (CreateRelationship db r) \<noteq> None" "snd (CreateRelationship db r) = db"
    by (simp_all add: CreateRelationship_missing)
next
  show "returned (StoreKnowledgeGraph db es rs) = None"
    by (simp add: StoreKnowledgeGraph_def storeEntities_CreateEntities split: prod.splits)
next
  let ?db = "snd (CreateEntities db es)"
  obtain d m l where run: "storeRelationships ?db rs 0 [] = (d, m, l)"
    by (cases "storeRelationships ?db rs 0 []") auto
  from storeRelationships_total[OF run]
  show "successfulRelationships (StoreKnowledgeGraph db es rs)
          + length (failures (StoreKnowledgeGraph db es rs)) = length rs"
    using run by (simp add: StoreKnowledgeGraph_def storeEntities_CreateEntities)
next
  assume missing: "Source r \<notin> dom (entities db) \<union> ID ` set es \<or>
                   Target r \<notin> dom (entities db) \<union> ID ` set es"
  let ?db = "snd (CreateEntities db es)"
  obtain d1 m1 l1 where first: "storeRelationships ?db rs1 0 [] = (d1, m1, l1)"
    by (cases "storeRelationships ?db rs1 0 []") auto
  have "entities d1 = entities ?db"
    using storeRelationships_entities[of ?db rs1 0 "[]"] first by simp
  then have "dom (entities d1) = dom (entities db) \<union> ID ` set es"
    by (simp add: CreateEntities_dom)
  with missing have "Source r \<notin> dom (entities d1) \<or> Target r \<notin> dom (entities d1)"
    by simp
  then have "entities d1 (Source r) = None \<or> entities d1 (Target r) = None"
    by (simp add: domIff)
  from CreateRelationship_missing[OF this]
  obtain err where refused: "CreateRelationship d1 r = (Some err, d1)" by blast
  obtain d2 m2 l2 where second: "storeRelationships d1 rs2 0 [] = (d2, m2, l2)"
    by (cases "storeRelationships d1 rs2 0 []") auto
  have with_r: "storeRelationships ?db (rs1 @ r # rs2) 0 [] = (d2, m1 + m2, l1 @ (r, err) # l2)"
    using first refused second
      storeRelationships_acc[of d1 rs2 m1 "l1 @ [(r, err)]"]
    by (simp add: storeRelationships_append)
  have without_r: "storeRelationships ?db (rs1 @ rs2) 0 [] = (d2, m1 + m2, l1 @ l2)"
    using first second storeRelationships_acc[of d1 rs2 m1 l1]
    by (simp add: storeRelationships_append)
  show "\<exists>err. (r, err) \<in> set (failures (StoreKnowledgeGraph db es (rs1 @ r # rs2)))"
    using with_r by (auto simp: StoreKnowledgeGraph_def storeEntities_CreateEntities)
  show "database (StoreKnowledgeGraph db es (rs1 @ r # rs2))
          = database (StoreKnowledgeGraph db es (rs1 @ rs2))"
    using with_r without_r by (simp add: StoreKnowledgeGraph_def storeEntities_CreateEntities)
  show "successfulRelationships (StoreKnowledgeGraph db es (rs1 @ r # rs2))
          = successfulRelationships (StoreKnowledgeGraph db es (rs1 @ rs2))"
    using with_r without_r by (simp add: StoreKnowledgeGraph_def storeEntities_CreateEntities)
qed

theorem referential_integrity_per_record_witness:
  "fst (CreateRelationship NewInMemoryDatabase (edge ''e0'' ''zz'' ''a'' 1 Map.empty)) \<noteq> None \<and>
   snd (CreateRelationship NewInMemoryDatabase (edge ''e0'' ''zz'' ''a'' 1 Map.empty))
     = NewInMemoryDatabase \<and>
   (\<exists>err. (edge ''e0'' ''zz'' ''a'' 1 Map.empty, err) \<in> set (failures
      (StoreKnowledgeGraph NewInMemoryDatabase [entA, entB]
         [edge ''e1'' ''a'' ''b'' 1 Map.empty, edge ''e0'' ''zz'' ''a'' 1 Map.empty,
          edge ''e2'' ''b'' ''a'' 1 Map.empty]))) \<and>
   returned (StoreKnowledgeGraph NewInMemoryDatabase [entA, entB]
         [edge ''e1'' ''a'' ''b'' 1 Map.empty, edge ''e0'' ''zz'' ''a'' 1 Map.empty,
          edge ''e2'' ''b'' ''a'' 1 Map.empty]) = None \<and>
   successfulRelationships (StoreKnowledgeGraph NewInMemoryDatabase [entA, entB]
         [edge ''e1'' ''a'' ''b'' 1 Map.empty, edge ''e0'' ''zz'' ''a'' 1 Map.empty,
          edge ''e2'' ''b'' ''a'' 1 Map.empty]) = 2 \<and>
   map fst (relationships (database (StoreKnowledgeGraph NewInMemoryDatabase [entA, entB]
         [edge ''e1'' ''a'' ''b'' 1 Map.empty, edge ''e0'' ''zz'' ''a'' 1 Map.empty,
          edge ''e2'' ''b'' ''a'' 1 Map.empty]))) = [''e1'', ''e2'']"
proof -
  let ?r = "edge ''e0'' ''zz'' ''a'' 1 Map.empty"
  let ?g1 = "edge ''e1'' ''a'' ''b'' 1 Map.empty"
  let ?g2 = "edge ''e2'' ''b'' ''a'' 1 Map.empty"
  have h1: "entities NewInMemoryDatabase (Source ?r) = None
            \<or> entities NewInMemoryDatabase (Target ?r) = None"
    by (simp add: NewInMemoryDatabase_def)
  have h2: "Source ?r \<notin> dom (entities NewInMemoryDatabase) \<union> ID ` set [entA, entB] \<or>
            Target ?r \<notin> dom (entities NewInMemoryDatabase) \<union> ID ` set [entA, entB]"
    by (simp add: NewInMemoryDatabase_def edge_def entA_def entB_def)
  note inst = referential_integrity_per_record[of NewInMemoryDatabase ?r "[entA, entB]"
      "[?g1, ?r, ?g2]" "[?g1]" "[?g2]"]
  have without: "storeRelationships (snd (CreateEntities NewInMemoryDatabase [entA, entB]))
                   [?g1, ?g2] 0 [] =
                 (\<lparr>entities = [''a'' \<mapsto> entA, ''b'' \<mapsto> entB],
                   relationships = [(''e1'', ?g1), (''e2'', ?g2)]\<rparr>, 2, [])"
    by (simp add: CreateEntities_Cons CreateEntity_def CreateRelationship_def findExisting_def
          sameEdge_def NewInMemoryDatabase_def edge_def entA_def entB_def)
  have count: "successfulRelationships
                 (StoreKnowledgeGraph NewInMemoryDatabase [entA, entB] [?g1, ?g2]) = 2"
    and rels: "map fst (relationships (database
                 (StoreKnowledgeGraph NewInMemoryDatabase [entA, entB] [?g1, ?g2])))
               = [''e1'', ''e2'']"
    using without by (simp_all add: StoreKnowledgeGraph_def storeEntities_CreateEntities)
  from inst h1 have refused:
    "fst (CreateRelationship NewInMemoryDatabase ?r) \<noteq> None"
    "snd (CreateRelationship NewInMemoryDatabase ?r) = NewInMemoryDatabase"
    by blast+
  from inst have ok:
    "returned (StoreKnowledgeGraph NewInMemoryDatabase [entA, entB] [?g1, ?r, ?g2]) = None"
    by blast
  from inst h2 have skipped:
    "\<exists>err. (?r, err) \<in> set (failures
       (StoreKnowledgeGraph NewInMemoryDatabase [entA, entB] ([?g1] @ ?r # [?g2])))"
    "database (StoreKnowledgeGraph NewInMemoryDatabase [entA, entB] ([?g1] @ ?r # [?g2]))
       = database (StoreKnowledgeGraph NewInMemoryDatabase [entA, entB] ([?g1] @ [?g2]))"
    "successfulRelationships
       (StoreKnowledgeGraph NewInMemoryDatabase [entA, entB] ([?g1] @ ?r # [?g2]))
       = successfulRelationships
           (StoreKnowledgeGraph NewInMemoryDatabase [entA, entB] ([?g1] @ [?g2]))"
    by blast+
  from refused ok skipped count rels show ?thesis by simp
qed

subsection \<open>Folding merges\<close>

lemma foldl_max_ge: "(c::real) \<le> foldl max c cs"
  by (induction cs arbitrary: c) (auto intro: order_trans[OF max.cobounded1])

lemma foldl_max_ge_elem: "x \<in> set cs \<Longrightarrow> (x::real) \<le> foldl max c cs"
proof (induction cs arbitrary: c)
  case Nil then show ?case by simp
next
  case (Cons a cs)
  show ?case
  proof (cases "x = a")
    case True
    have "a \<le> max c a" by simp
    also have "\<dots> \<le> foldl max (max c a) cs" by (rule foldl_max_ge)
    finally show ?thesis using True by simp
  next
    case False
    with Cons show ?thesis by simp
  qed
qed

lemma foldl_max_absorb: "\<forall>x \<in> set cs. (x::real) \<le> c \<Longrightarrow> foldl max c cs = c"
  by (induction cs arbitrary: c) (auto simp: max_absorb1)

lemma foldl_map_add: "foldl (++) p ps = p ++ foldl (++) Map.empty ps"
proof (induction ps arbitrary: p)
  case Nil then show ?case by simp
next
  case (Cons q ps)
  have "foldl (++) (p ++ q) ps = (p ++ q) ++ foldl (++) Map.empty ps" by (rule Cons.IH)
  moreover have "foldl (++) (Map.empty ++ q) ps = q ++ foldl (++) Map.empty ps"
    using Cons.IH[of q] by simp
  ultimately show ?case by simp
qed

lemma map_add_absorb: "q \<subseteq>\<^sub>m p \<Longrightarrow> p ++ q = p"
  by (rule map_add_subsumed2)

lemma foldl_map_add_absorb:
  "foldl (++) Map.empty ps \<subseteq>\<^sub>m p \<Longrightarrow> foldl (++) p ps = p"
  using foldl_map_add[of p ps] by (simp add: map_add_subsumed2)

lemma map_le_add_right: "q \<subseteq>\<^sub>m p \<Longrightarrow> q ++ r \<subseteq>\<^sub>m p ++ r"
  by (auto simp: map_le_def map_add_def dom_def split: option.splits)


subsection \<open>Entities\<close>

lemma CreateEntity_mergeEntity:
  "entities (snd (CreateEntity db e)) =
     (entities db)(ID e \<mapsto> (case entities db (ID e) of None \<Rightarrow> e | Some x \<Rightarrow> mergeEntity x e))"
  by (simp add: CreateEntity_entities mergeEntity_def split: option.splits)

lemma CreateEntity_state:
  "snd (CreateEntity db e) = db\<lparr>entities := entities (snd (CreateEntity db e))\<rparr>"
  by (simp add: CreateEntity_def Let_def split: option.splits)

lemma CreateEntities_state:
  "snd (CreateEntities db es) = db\<lparr>entities := entities (snd (CreateEntities db es))\<rparr>"
  by (rule InMemoryDatabase.equality) (simp_all add: CreateEntities_relationships)

lemma CreateEntities_snoc:
  "snd (CreateEntities db (es @ [e])) = snd (CreateEntity (snd (CreateEntities db es)) e)"
  by (induction es arbitrary: db) (simp_all add: CreateEntities_Cons)

lemma foldl_mergeEntity_fields:
  "ID (foldl mergeEntity x F) = ID x"
  "Type (foldl mergeEntity x F) = Type x"
  "Label (foldl mergeEntity x F) = (if F = [] then Label x else Label (last F))"
  "Confidence (foldl mergeEntity x F) = foldl max (Confidence x) (map Confidence F)"
  "Properties (foldl mergeEntity x F) = foldl (++) (Properties x) (map Properties F)"
  "Entity.more (foldl mergeEntity x F) = Entity.more x"
  by (induction F arbitrary: x) (auto simp: mergeEntity_def max.commute)

lemma satE_fixed:
  assumes "satE y F"
  shows "foldl mergeEntity y F = y"
proof (rule Entity.equality)
  show "ID (foldl mergeEntity y F) = ID y" "Type (foldl mergeEntity y F) = Type y"
    "Entity.more (foldl mergeEntity y F) = Entity.more y"
    by (simp_all add: foldl_mergeEntity_fields)
  show "Label (foldl mergeEntity y F) = Label y"
    using assms by (simp add: foldl_mergeEntity_fields(3) satE_def)
  have "\<forall>c \<in> set (map Confidence F). c \<le> Confidence y"
    using assms by (simp add: satE_def)
  then show "Confidence (foldl mergeEntity y F) = Confidence y"
    by (simp only: foldl_mergeEntity_fields(4) foldl_max_absorb)
  have "foldl (++) Map.empty (map Properties F) \<subseteq>\<^sub>m Properties y"
    using assms by (simp add: satE_def)
  then show "Properties (foldl mergeEntity y F) = Properties y"
    by (simp only: foldl_mergeEntity_fields(5) foldl_map_add_absorb)
qed

lemma satE_snoc: "satE y F \<Longrightarrow> satE (mergeEntity y e) (F @ [e])"
  by (auto simp: satE_def mergeEntity_def map_le_add_right intro: max.coboundedI2)

lemma satE_single: "satE e [e]"
  by (simp add: satE_def)

lemma satE_nil: "satE y []"
  by (simp add: satE_def)

lemma CreateEntities_saturated:
  assumes "entities (snd (CreateEntities db es)) i = Some y"
  shows "satE y (filter (\<lambda>e. ID e = i) es)"
  using assms
proof (induction es arbitrary: y rule: rev_induct)
  case Nil
  then show ?case by (simp add: satE_nil)
next
  case (snoc e es)
  let ?m = "entities (snd (CreateEntities db es))"
  show ?case
  proof (cases "ID e = i")
    case False
    then have "?m i = Some y"
      using snoc.prems by (simp add: CreateEntities_snoc CreateEntity_mergeEntity)
    then show ?thesis using snoc.IH False by simp
  next
    case True
    show ?thesis
    proof (cases "?m i")
      case None
      then have "y = e"
        using snoc.prems True by (simp add: CreateEntities_snoc CreateEntity_mergeEntity)
      moreover have "filter (\<lambda>e. ID e = i) es = []"
      proof -
        have "i \<notin> dom ?m" using None by (simp add: domIff)
        then have "i \<notin> ID ` set es" by (simp add: CreateEntities_dom)
        then show ?thesis by (auto simp: filter_empty_conv)
      qed
      ultimately show ?thesis using True by (simp add: satE_single)
    next
      case (Some x)
      then have "y = mergeEntity x e"
        using snoc.prems True by (simp add: CreateEntities_snoc CreateEntity_mergeEntity)
      moreover have "satE x (filter (\<lambda>e. ID e = i) es)" using snoc.IH Some by simp
      ultimately show ?thesis using True by (simp add: satE_snoc)
    qed
  qed
qed

lemma CreateEntities_present:
  assumes "ID ` set es \<subseteq> dom (entities db)"
  shows "entities (snd (CreateEntities db es)) i =
           map_option (\<lambda>y. foldl mergeEntity y (filter (\<lambda>e. ID e = i) es)) (entities db i)"
  using assms
proof (induction es arbitrary: db)
  case Nil
  then show ?case by (simp add: option.map_ident)
next
  case (Cons e es)
  let ?db = "snd (CreateEntity db e)"
  obtain x where x: "entities db (ID e) = Some x" using Cons.prems by auto
  have "ID ` set es \<subseteq> dom (entities ?db)"
    using Cons.prems by (auto simp: CreateEntity_mergeEntity)
  from Cons.IH[OF this]
  have "entities (snd (CreateEntities ?db es)) i =
          map_option (\<lambda>y. foldl mergeEntity y (filter (\<lambda>e. ID e = i) es)) (entities ?db i)" .
  then show ?case using x
    by (cases "entities db i") (auto simp: CreateEntities_Cons CreateEntity_mergeEntity)
qed

lemma CreateEntities_idempotent:
  assumes "entities s = entities (snd (CreateEntities db es))"
  shows "snd (CreateEntities s es) = s"
proof -
  have sub: "ID ` set es \<subseteq> dom (entities s)"
    using assms by (simp add: CreateEntities_dom)
  have "entities (snd (CreateEntities s es)) i = entities s i" for i
  proof (cases "entities s i")
    case None
    then show ?thesis using CreateEntities_present[OF sub, of i] by simp
  next
    case (Some y)
    then have "satE y (filter (\<lambda>e. ID e = i) es)"
      using CreateEntities_saturated[of db es i y] assms by simp
    then show ?thesis using CreateEntities_present[OF sub, of i] Some
      by (simp add: satE_fixed)
  qed
  then have "entities (snd (CreateEntities s es)) = entities s" by (rule ext)
  then show ?thesis using CreateEntities_state[of s es] by simp
qed


subsection \<open>Relationships\<close>

lemma sameEdge_edgeOf: "sameEdge x r \<longleftrightarrow> edgeOf x = edgeOf r"
  by (auto simp: sameEdge_def edgeOf_def)

lemma mergeRel_fields:
  "RID (mergeRel x r) = RID x"
  "edgeOf (mergeRel x r) = edgeOf x"
  "RConfidence (mergeRel x r) = max (RConfidence x) (RConfidence r)"
  "RProperties (mergeRel x r) = RProperties x ++ RProperties r"
  "Relationship.more (mergeRel x r) = Relationship.more x"
  "Source (mergeRel x r) = Source x" "Target (mergeRel x r) = Target x"
  "RType (mergeRel x r) = RType x"
  by (auto simp: mergeRel_def edgeOf_def max_def)

lemma foldl_mergeRel_fields:
  "RID (foldl mergeRel x F) = RID x"
  "Source (foldl mergeRel x F) = Source x"
  "Target (foldl mergeRel x F) = Target x"
  "RType (foldl mergeRel x F) = RType x"
  "RConfidence (foldl mergeRel x F) = foldl max (RConfidence x) (map RConfidence F)"
  "RProperties (foldl mergeRel x F) = foldl (++) (RProperties x) (map RProperties F)"
  "Relationship.more (foldl mergeRel x F) = Relationship.more x"
  by (induction F arbitrary: x) (simp_all add: mergeRel_fields)

lemma satR_fixed:
  assumes "satR y F"
  shows "foldl mergeRel y F = y"
proof (rule Relationship.equality)
  show "RID (foldl mergeRel y F) = RID y" "Source (foldl mergeRel y F) = Source y"
    "Target (foldl mergeRel y F) = Target y" "RType (foldl mergeRel y F) = RType y"
    "Relationship.more (foldl mergeRel y F) = Relationship.more y"
    by (simp_all add: foldl_mergeRel_fields)
  have "\<forall>c \<in> set (map RConfidence F). c \<le> RConfidence y"
    using assms by (simp add: satR_def)
  then show "RConfidence (foldl mergeRel y F) = RConfidence y"
    by (simp only: foldl_mergeRel_fields(5) foldl_max_absorb)
  have "foldl (++) Map.empty (map RProperties F) \<subseteq>\<^sub>m RProperties y"
    using assms by (simp add: satR_def)
  then show "RProperties (foldl mergeRel y F) = RProperties y"
    by (simp only: foldl_mergeRel_fields(6) foldl_map_add_absorb)
qed

lemma satR_snoc: "satR y F \<Longrightarrow> satR (mergeRel y r) (F @ [r])"
  by (auto simp: satR_def mergeRel_fields map_le_add_right intro: max.coboundedI1)

lemma satR_single: "satR r [r]"
  by (simp add: satR_def)

lemma update_absent: "k \<notin> fst ` set L \<Longrightarrow> AList.update k v L = L @ [(k, v)]"
  by (induction L) auto

lemma update_found:
  assumes "distinct (map fst L)" "distinct (map (\<lambda>(k, x). edgeOf x) L)"
    "find (\<lambda>(k, x). sameEdge x r) L = Some (k, x)"
  shows "AList.update k (f x) L = map (\<lambda>(k', x'). (k', if sameEdge x' r then f x' else x')) L"
  using assms
proof (induction L)
  case Nil
  then show ?case by simp
next
  case (Cons p L)
  obtain k1 x1 where p: "p = (k1, x1)" by (cases p)
  show ?case
  proof (cases "sameEdge x1 r")
    case True
    then have kx: "k = k1" "x = x1" using Cons.prems(3) p by auto
    have "\<forall>(k', x') \<in> set L. \<not> sameEdge x' r"
      using Cons.prems(2) True p by (force simp: sameEdge_edgeOf)
    then have "map (\<lambda>(k', x'). (k', if sameEdge x' r then f x' else x')) L = L"
      by (intro map_idI) auto
    then show ?thesis using True kx p by simp
  next
    case False
    then have found: "find (\<lambda>(k, x). sameEdge x r) L = Some (k, x)"
      using Cons.prems(3) p by simp
    then have "(k, x) \<in> set L" by (auto simp: find_Some_iff in_set_conv_nth)
    then have "k \<noteq> k1" using Cons.prems(1) p by force
    moreover have "AList.update k (f x) L
        = map (\<lambda>(k', x'). (k', if sameEdge x' r then f x' else x')) L"
      using Cons.IH Cons.prems(1,2) found p by simp
    ultimately show ?thesis using False p by simp
  qed
qed

lemma upsertRel_match:
  assumes "wellKeyed L" "(k, x) \<in> set L" "sameEdge x r"
  shows "upsertRel L r = map (\<lambda>(k', x'). (k', if sameEdge x' r then mergeRel x' r else x')) L"
proof -
  have "\<exists>p \<in> set L. (\<lambda>(k, x). sameEdge x r) p" using assms(2,3) by auto
  then obtain k0 x0 where found: "find (\<lambda>(k, x). sameEdge x r) L = Some (k0, x0)"
    by (cases "find (\<lambda>(k, x). sameEdge x r) L") (auto simp: find_None_iff)
  then have "(k0, x0) \<in> set L" by (auto simp: find_Some_iff in_set_conv_nth)
  then have "k0 \<noteq> ''''" using assms(1) by (auto simp: wellKeyed_def)
  then have "upsertRel L r = AList.update k0 (mergeRel x0 r) L"
    using found by (simp add: upsertRel_def findExisting_def)
  also have "\<dots> = map (\<lambda>(k', x'). (k', if sameEdge x' r then mergeRel x' r else x')) L"
    using assms(1) found by (intro update_found) (auto simp: wellKeyed_def)
  finally show ?thesis .
qed

lemma upsertRel_new:
  assumes "\<forall>(k, x) \<in> set L. \<not> sameEdge x r" "RID r \<notin> fst ` set L"
  shows "upsertRel L r = L @ [(RID r, r)]"
proof -
  have "find (\<lambda>(k, x). sameEdge x r) L = None"
    using assms(1) by (auto simp: find_None_iff)
  then show ?thesis using assms(2)
    by (simp add: upsertRel_def findExisting_def update_absent)
qed

lemma wellKeyed_map:
  assumes "wellKeyed L" "\<And>x. RID (g x) = RID x" "\<And>x. edgeOf (g x) = edgeOf x"
  shows "wellKeyed (map (\<lambda>(k, x). (k, g x)) L)"
proof -
  have keys: "map fst (map (\<lambda>(k, x). (k, g x)) L) = map fst L"
    by (simp add: o_def split_def)
  have edges: "map (\<lambda>(k, x). edgeOf x) (map (\<lambda>(k, x). (k, g x)) L)
               = map (\<lambda>(k, x). edgeOf x) L"
    using assms(3) by (simp add: o_def split_def)
  have ids: "\<forall>(k, x) \<in> set (map (\<lambda>(k, x). (k, g x)) L). k = RID x \<and> k \<noteq> []"
    using assms(1,2) by (auto simp: wellKeyed_def)
  have "distinct (map fst L)" "distinct (map (\<lambda>(k, x). edgeOf x) L)"
    using assms(1) by (simp_all add: wellKeyed_def)
  then show ?thesis unfolding wellKeyed_def keys edges using ids by blast
qed

lemma upsert_cases:
  assumes "agrees B L" "r \<in> set B" "idsAgree B"
  shows "((\<exists>(k, x) \<in> set L. sameEdge x r) \<and>
          upsertRel L r = map (\<lambda>(k', x'). (k', if sameEdge x' r then mergeRel x' r else x')) L) \<or>
         ((\<forall>(k, x) \<in> set L. \<not> sameEdge x r) \<and> upsertRel L r = L @ [(RID r, r)] \<and>
          RID r \<notin> fst ` set L)"
proof (cases "\<exists>(k, x) \<in> set L. sameEdge x r")
  case True
  then obtain k x where kx: "(k, x) \<in> set L" "sameEdge x r" by auto
  have "wellKeyed L" using assms(1) by (simp add: agrees_def)
  from upsertRel_match[OF this kx] True show ?thesis by blast
next
  case False
  have absent: "RID r \<notin> fst ` set L"
  proof
    assume "RID r \<in> fst ` set L"
    then obtain x where "(RID r, x) \<in> set L" by force
    then have "edgeOf x = edgeOf r" "(RID r, x) \<in> set L"
      using assms(1,2) by (auto simp: agrees_def)
    then show False using False by (auto simp: sameEdge_edgeOf)
  qed
  have none: "\<forall>(k, x) \<in> set L. \<not> sameEdge x r" using False by auto
  from none upsertRel_new[OF none absent] absent show ?thesis by blast
qed

lemma agrees_upsert:
  assumes "agrees B L" "r \<in> set B" "idsAgree B"
  shows "agrees B (upsertRel L r)"
proof -
  have wk: "wellKeyed L"
    and ag: "\<And>p r'. p \<in> set L \<Longrightarrow> r' \<in> set B \<Longrightarrow> RID r' = fst p \<Longrightarrow> edgeOf (snd p) = edgeOf r'"
    using assms(1) unfolding agrees_def by blast+
  consider (merged) "\<exists>(k, x) \<in> set L. sameEdge x r"
      "upsertRel L r = map (\<lambda>(k', x'). (k', if sameEdge x' r then mergeRel x' r else x')) L"
    | (added) "\<forall>(k, x) \<in> set L. \<not> sameEdge x r" "upsertRel L r = L @ [(RID r, r)]"
      "RID r \<notin> fst ` set L"
    using upsert_cases[OF assms] by blast
  then show ?thesis
  proof cases
    case merged
    let ?g = "\<lambda>x'. if sameEdge x' r then mergeRel x' r else x'"
    have eq: "upsertRel L r = map (\<lambda>(k, x). (k, ?g x)) L" using merged(2) by simp
    have g_id: "RID (?g x) = RID x" for x by (simp add: mergeRel_fields)
    have g_edge: "edgeOf (?g x) = edgeOf x" for x by (simp add: mergeRel_fields)
    have 1: "wellKeyed (map (\<lambda>(k, x). (k, ?g x)) L)"
      by (rule wellKeyed_map[OF wk g_id g_edge])
    have 2: "\<forall>p \<in> set (map (\<lambda>(k, x). (k, ?g x)) L).
               \<forall>r' \<in> set B. RID r' = fst p \<longrightarrow> edgeOf (snd p) = edgeOf r'"
    proof (intro ballI impI)
      fix p r'
      assume mem: "p \<in> set (map (\<lambda>(k, x). (k, ?g x)) L)" and r': "r' \<in> set B"
        and k: "RID r' = fst p"
      from mem obtain q where q: "q \<in> set L" "fst p = fst q" "snd p = ?g (snd q)" by auto
      have "edgeOf (snd p) = edgeOf (snd q)" using q(3) g_edge by simp
      also have "\<dots> = edgeOf r'" using ag[OF q(1) r'] k q(2) by simp
      finally show "edgeOf (snd p) = edgeOf r'" .
    qed
    show ?thesis unfolding agrees_def eq by (rule conjI[OF 1 2])
  next
    case added
    have nonempty: "RID r \<noteq> ''''" using assms(2,3) unfolding idsAgree_def by blast
    have fresh: "edgeOf r \<notin> (\<lambda>(k, x). edgeOf x) ` set L"
    proof
      assume "edgeOf r \<in> (\<lambda>(k, x). edgeOf x) ` set L"
      then obtain k x where "(k, x) \<in> set L" "edgeOf x = edgeOf r" by auto
      then show False using added(1) by (auto simp: sameEdge_edgeOf)
    qed
    have d1: "distinct (map fst (L @ [(RID r, r)]))"
      using wk added(3) by (simp add: wellKeyed_def)
    have d2: "distinct (map (\<lambda>(k, x). edgeOf x) (L @ [(RID r, r)]))"
      using wk fresh by (simp add: wellKeyed_def)
    have d3: "\<forall>(k, x) \<in> set (L @ [(RID r, r)]). k = RID x \<and> k \<noteq> ''''"
      using wk nonempty by (simp add: wellKeyed_def)
    have 1: "wellKeyed (L @ [(RID r, r)])"
      unfolding wellKeyed_def using d1 d2 d3 by blast
    have 2: "\<forall>p \<in> set (L @ [(RID r, r)]).
               \<forall>r' \<in> set B. RID r' = fst p \<longrightarrow> edgeOf (snd p) = edgeOf r'"
    proof (intro ballI impI)
      fix p r'
      assume mem: "p \<in> set (L @ [(RID r, r)])" and r': "r' \<in> set B"
        and k: "RID r' = fst p"
      from mem consider "p \<in> set L" | "p = (RID r, r)" by auto
      then show "edgeOf (snd p) = edgeOf r'"
      proof cases
        case 1
        then show ?thesis using ag[OF 1 r'] k by simp
      next
        case 2
        then have "RID r = RID r'" using k by simp
        then have "edgeOf r = edgeOf r'" using assms(2,3) r' unfolding idsAgree_def by blast
        then show ?thesis using 2 by simp
      qed
    qed
    show ?thesis unfolding agrees_def added(2) by (rule conjI[OF 1 2])
  qed
qed

lemma pass_invariant:
  assumes "agrees B L" "idsAgree B" "set P \<subseteq> set B"
  shows "agrees B (foldl upsertRel L P) \<and>
         (\<forall>r \<in> set P. \<exists>(k, x) \<in> set (foldl upsertRel L P). sameEdge x r) \<and>
         (\<forall>(k, y) \<in> set (foldl upsertRel L P). satR y (filter (\<lambda>r. sameEdge y r) P))"
  using assms(3)
proof (induction P rule: rev_induct)
  case Nil
  then show ?case using assms(1) by (simp add: satR_def)
next
  case (snoc r P)
  let ?M = "foldl upsertRel L P"
  have IH: "agrees B ?M" "\<forall>r \<in> set P. \<exists>(k, x) \<in> set ?M. sameEdge x r"
    "\<forall>(k, y) \<in> set ?M. satR y (filter (\<lambda>r. sameEdge y r) P)"
    using snoc by auto
  have rB: "r \<in> set B" using snoc.prems by simp
  have inv: "agrees B (upsertRel ?M r)" by (rule agrees_upsert[OF IH(1) rB assms(2)])
  consider (merged) "\<exists>(k, x) \<in> set ?M. sameEdge x r"
      "upsertRel ?M r = map (\<lambda>(k', x'). (k', if sameEdge x' r then mergeRel x' r else x')) ?M"
    | (added) "\<forall>(k, x) \<in> set ?M. \<not> sameEdge x r" "upsertRel ?M r = ?M @ [(RID r, r)]"
      "RID r \<notin> fst ` set ?M"
    using upsert_cases[OF IH(1) rB assms(2)] by blast
  then show ?case
  proof cases
    case merged
    let ?g = "\<lambda>x'. if sameEdge x' r then mergeRel x' r else x'"
    have eq: "upsertRel ?M r = map (\<lambda>(k, x). (k, ?g x)) ?M" using merged(2) by simp
    have edge: "sameEdge (?g x) r' = sameEdge x r'" for x r'
      by (simp add: sameEdge_edgeOf mergeRel_fields)
    have pres: "\<forall>r' \<in> set (P @ [r]). \<exists>(k, x) \<in> set (upsertRel ?M r). sameEdge x r'"
    proof
      fix r' assume "r' \<in> set (P @ [r])"
      then have "\<exists>(k, x) \<in> set ?M. sameEdge x r'" using IH(2) merged(1) by auto
      then obtain k x where "(k, x) \<in> set ?M" "sameEdge x r'" by auto
      then have "(k, ?g x) \<in> set (upsertRel ?M r)" "sameEdge (?g x) r'"
        unfolding eq using edge by force+
      then show "\<exists>(k, x) \<in> set (upsertRel ?M r). sameEdge x r'" by blast
    qed
    have sat: "\<forall>(k, y) \<in> set (upsertRel ?M r). satR y (filter (\<lambda>r. sameEdge y r) (P @ [r]))"
    proof (clarify)
      fix k y assume "(k, y) \<in> set (upsertRel ?M r)"
      then obtain x where x: "(k, x) \<in> set ?M" "y = ?g x" unfolding eq by auto
      have sx: "satR x (filter (\<lambda>r. sameEdge x r) P)" using IH(3) x(1) by auto
      have f: "filter (\<lambda>r'. sameEdge y r') (P @ [r])
               = filter (\<lambda>r'. sameEdge x r') P @ (if sameEdge x r then [r] else [])"
        using x(2) edge by simp
      show "satR y (filter (\<lambda>r. sameEdge y r) (P @ [r]))"
      proof (cases "sameEdge x r")
        case True
        then show ?thesis using f sx x(2) satR_snoc[of x _ r] by simp
      next
        case False
        then show ?thesis using f sx x(2) by simp
      qed
    qed
    from inv pres sat show ?thesis by simp
  next
    case added
    have eq: "upsertRel ?M r = ?M @ [(RID r, r)]" using added(2) .
    have pres: "\<forall>r' \<in> set (P @ [r]). \<exists>(k, x) \<in> set (upsertRel ?M r). sameEdge x r'"
      unfolding eq using IH(2) by (auto simp: sameEdge_edgeOf)
    have none: "filter (\<lambda>r'. sameEdge r r') P = []"
    proof -
      have "\<not> sameEdge r r'" if mem: "r' \<in> set P" for r'
      proof
        assume same: "sameEdge r r'"
        from IH(2) mem obtain k x where kx: "(k, x) \<in> set ?M" "sameEdge x r'" by blast
        then have "sameEdge x r" using same by (simp add: sameEdge_edgeOf)
        then show False using added(1) kx(1) by blast
      qed
      then show ?thesis by (auto simp: filter_empty_conv)
    qed
    have sat: "\<forall>(k, y) \<in> set (upsertRel ?M r). satR y (filter (\<lambda>r. sameEdge y r) (P @ [r]))"
    proof (clarify)
      fix k y assume "(k, y) \<in> set (upsertRel ?M r)"
      then consider "(k, y) \<in> set ?M" | "y = r" unfolding eq by auto
      then show "satR y (filter (\<lambda>r. sameEdge y r) (P @ [r]))"
      proof cases
        case 1
        then have "\<not> sameEdge y r" using added(1) by auto
        then show ?thesis using IH(3) 1 by auto
      next
        case 2
        then show ?thesis using none by (simp add: satR_single sameEdge_edgeOf)
      qed
    qed
    from inv pres sat show ?thesis by simp
  qed
qed

lemma pass_over_present:
  assumes "wellKeyed L" "\<forall>r \<in> set P. \<exists>(k, x) \<in> set L. sameEdge x r"
  shows "foldl upsertRel L P
           = map (\<lambda>(k, y). (k, foldl mergeRel y (filter (\<lambda>r. sameEdge y r) P))) L"
  using assms
proof (induction P arbitrary: L)
  case Nil
  then show ?case by (simp add: map_idI)
next
  case (Cons r P)
  let ?g = "\<lambda>x'. if sameEdge x' r then mergeRel x' r else x'"
  let ?L = "map (\<lambda>(k, x). (k, ?g x)) L"
  obtain k x where kx: "(k, x) \<in> set L" "sameEdge x r" using Cons.prems(2) by auto
  have eq: "upsertRel L r = ?L"
    using upsertRel_match[OF Cons.prems(1) kx] by simp
  have edge: "sameEdge (?g x) r' = sameEdge x r'" for x r'
    by (simp add: sameEdge_edgeOf mergeRel_fields)
  have edge2: "sameEdge (mergeRel x r) = sameEdge x" for x
    by (rule ext) (simp add: sameEdge_edgeOf mergeRel_fields)
  have wk: "wellKeyed ?L"
    using Cons.prems(1) by (intro wellKeyed_map) (auto simp: mergeRel_fields)
  have pres: "\<forall>r' \<in> set P. \<exists>(k, x) \<in> set ?L. sameEdge x r'"
  proof
    fix r' assume "r' \<in> set P"
    then obtain k x where "(k, x) \<in> set L" "sameEdge x r'" using Cons.prems(2) by auto
    then have "(k, ?g x) \<in> set ?L" "sameEdge (?g x) r'" using edge by force+
    then show "\<exists>(k, x) \<in> set ?L. sameEdge x r'" by blast
  qed
  have "foldl upsertRel ?L P
          = map (\<lambda>(k, y). (k, foldl mergeRel y (filter (\<lambda>r. sameEdge y r) P))) ?L"
    by (rule Cons.IH[OF wk pres])
  also have "\<dots> = map (\<lambda>(k, y). (k, foldl mergeRel y (filter (\<lambda>r. sameEdge y r) (r # P)))) L"
    using edge2 by (auto simp: o_def split_def)
  finally show ?case using eq by simp
qed

lemma pass_idempotent:
  assumes "agrees B L" "idsAgree B" "set P \<subseteq> set B"
  shows "foldl upsertRel (foldl upsertRel L P) P = foldl upsertRel L P"
proof -
  let ?M = "foldl upsertRel L P"
  from pass_invariant[OF assms]
  have inv: "agrees B ?M" "\<forall>r \<in> set P. \<exists>(k, x) \<in> set ?M. sameEdge x r"
    "\<forall>(k, y) \<in> set ?M. satR y (filter (\<lambda>r. sameEdge y r) P)" by auto
  have "foldl upsertRel ?M P
          = map (\<lambda>(k, y). (k, foldl mergeRel y (filter (\<lambda>r. sameEdge y r) P))) ?M"
    using inv(1,2) by (intro pass_over_present) (auto simp: agrees_def)
  also have "\<dots> = ?M"
    using inv(3) by (intro map_idI) (auto simp: satR_fixed)
  finally show ?thesis .
qed

subsection \<open>A batch, twice\<close>

lemma CreateRelationships_fold:
  "CreateRelationships db rs =
     (map_option (endpointError db) (find (\<lambda>r. \<not> endpointsExist db r) rs),
      db\<lparr>relationships := foldl upsertRel (relationships db) (takeWhile (endpointsExist db) rs)\<rparr>)"
proof (induction rs arbitrary: db)
  case Nil
  then show ?case by simp
next
  case (Cons r rs)
  show ?case
  proof (cases "endpointsExist db r")
    case False
    then have "entities db (Source r) = None \<or> entities db (Target r) = None"
      by (auto simp: endpointsExist_def)
    from CreateRelationship_missing[OF this] False show ?thesis
      by (simp add: endpointError_def)
  next
    case True
    let ?db = "db\<lparr>relationships := upsertRel (relationships db) r\<rparr>"
    have step: "CreateRelationship db r = (None, ?db)"
      using True by (intro CreateRelationship_upsertRel) (auto simp: endpointsExist_def)
    have same: "endpointsExist ?db = endpointsExist db" "endpointError ?db = endpointError db"
      by (rule ext, simp add: endpointsExist_def, rule ext, simp add: endpointError_def)
    show ?thesis using step True Cons.IH[of ?db] by (simp add: same)
  qed
qed

lemma agrees_initial:
  assumes "wellKeyed L" "idsAgree (map snd L @ rs)"
  shows "agrees rs L"
  unfolding agrees_def
proof (intro conjI ballI impI)
  show "wellKeyed L" by fact
next
  fix p r assume p: "p \<in> set L" and r: "r \<in> set rs" and k: "RID r = fst p"
  have "fst p = RID (snd p)" using assms(1) p by (auto simp: wellKeyed_def)
  then have "RID (snd p) = RID r" using k by simp
  moreover have "snd p \<in> set (map snd L @ rs)" "r \<in> set (map snd L @ rs)"
    using p r by auto
  ultimately show "edgeOf (snd p) = edgeOf r"
    using assms(2) unfolding idsAgree_def by blast
qed

lemma idsAgree_suffix: "idsAgree (xs @ rs) \<Longrightarrow> idsAgree rs"
  unfolding idsAgree_def by auto

text \<open>
  C1, as the store has it.  Take a store whose relationship table is well keyed (every
  entry under its own non-empty id, no two entries with the same source, target and
  type) and a batch such that the relationships of the store and of the batch have
  non-empty ids and agree on source, target and type whenever they agree on the id.
  Then upserting the batch a second time returns the same error value as the first time
  and leaves the store exactly as the first upsert left it: the same entities and the
  same relationships, with the same labels, confidences and properties.
\<close>

theorem upsert_batch_idempotent:
  assumes "wellKeyed (relationships db)"
    and "idsAgree (map snd (relationships db) @ rs)"
  shows "upsertBatch (upsertBatch db es rs) es rs = upsertBatch db es rs \<and>
         CreateEntities (upsertBatch db es rs) es = (None, upsertBatch db es rs) \<and>
         fst (CreateRelationships (upsertBatch db es rs) rs)
           = fst (CreateRelationships (snd (CreateEntities db es)) rs)"
proof -
  let ?d0 = "snd (CreateEntities db es)"
  let ?P = "takeWhile (endpointsExist ?d0) rs"
  let ?L = "relationships db"
  let ?s1 = "upsertBatch db es rs"
  have rel0: "relationships ?d0 = ?L" by (rule CreateEntities_relationships)
  have s1: "?s1 = ?d0\<lparr>relationships := foldl upsertRel ?L ?P\<rparr>"
    unfolding upsertBatch_def by (simp add: CreateRelationships_fold rel0)
  have ent1: "entities ?s1 = entities ?d0" by (simp add: s1)
  have again: "snd (CreateEntities ?s1 es) = ?s1"
    by (rule CreateEntities_idempotent[OF ent1])
  then have ents: "CreateEntities ?s1 es = (None, ?s1)"
    using CreateEntities_returns_nil[of ?s1 es] by (cases "CreateEntities ?s1 es") simp
  have same: "endpointsExist ?s1 = endpointsExist ?d0" "endpointError ?s1 = endpointError ?d0"
    by (rule ext, simp add: endpointsExist_def ent1, rule ext, simp add: endpointError_def ent1)
  have pass: "foldl upsertRel (foldl upsertRel ?L ?P) ?P = foldl upsertRel ?L ?P"
  proof (rule pass_idempotent)
    show "agrees rs ?L" by (rule agrees_initial[OF assms])
    show "idsAgree rs" by (rule idsAgree_suffix[OF assms(2)])
    show "set ?P \<subseteq> set rs" by (auto dest: set_takeWhileD)
  qed
  have rel1: "relationships ?s1 = foldl upsertRel ?L ?P" by (simp add: s1)
  have run2: "CreateRelationships ?s1 rs =
                (fst (CreateRelationships ?d0 rs), ?s1\<lparr>relationships := foldl upsertRel ?L ?P\<rparr>)"
    by (simp add: CreateRelationships_fold[of ?s1] CreateRelationships_fold[of ?d0]
          same rel1 pass)
  have unchanged: "?s1\<lparr>relationships := foldl upsertRel ?L ?P\<rparr> = ?s1" by (simp add: s1)
  have "upsertBatch ?s1 es rs = ?s1"
    unfolding upsertBatch_def[of ?s1] again using run2 unchanged by simp
  moreover have "fst (CreateRelationships ?s1 rs) = fst (CreateRelationships ?d0 rs)"
    using run2 by simp
  ultimately show ?thesis using ents by simp
qed

theorem upsert_batch_idempotent_witness:
  "wellKeyed (relationships NewInMemoryDatabase) \<and>
   idsAgree (map snd (relationships NewInMemoryDatabase) @ derivedBatch) \<and>
   upsertBatch (upsertBatch NewInMemoryDatabase [entA, entB] derivedBatch) [entA, entB] derivedBatch
     = upsertBatch NewInMemoryDatabase [entA, entB] derivedBatch \<and>
   relationships (upsertBatch NewInMemoryDatabase [entA, entB] derivedBatch)
     = [(''ab'', edge ''ab'' ''a'' ''b'' 0.9 [''k'' \<mapsto> PInt 2, ''j'' \<mapsto> PInt 3]),
        (''ba'', edge ''ba'' ''b'' ''a'' 1 Map.empty)]"
proof -
  have h1: "wellKeyed (relationships NewInMemoryDatabase)"
    by (simp add: wellKeyed_def NewInMemoryDatabase_def)
  have h2: "idsAgree (map snd (relationships NewInMemoryDatabase) @ derivedBatch)"
    by (simp add: idsAgree_def NewInMemoryDatabase_def derivedBatch_def edge_def edgeOf_def)
  have state: "relationships (upsertBatch NewInMemoryDatabase [entA, entB] derivedBatch)
     = [(''ab'', edge ''ab'' ''a'' ''b'' 0.9 [''k'' \<mapsto> PInt 2, ''j'' \<mapsto> PInt 3]),
        (''ba'', edge ''ba'' ''b'' ''a'' 1 Map.empty)]"
    by (simp add: upsertBatch_def CreateRelationships_fold endpointsExist_def
          CreateEntities_Cons CreateEntity_def NewInMemoryDatabase_def derivedBatch_def
          upsertRel_def findExisting_def sameEdge_def mergeRel_def edge_def entA_def entB_def)
  from upsert_batch_idempotent[OF h1 h2, of "[entA, entB]"] h1 h2 state
  show ?thesis by blast
qed

theorem upsert_batch_twice_counterexample:
  "upsertBatch (upsertBatch NewInMemoryDatabase [entA, entB, entC] collidingBatch)
     [entA, entB, entC] collidingBatch
   \<noteq> upsertBatch NewInMemoryDatabase [entA, entB, entC] collidingBatch"
proof -
  have once: "relationships (upsertBatch NewInMemoryDatabase [entA, entB, entC] collidingBatch)
     = [(''x'', edge ''x'' ''a'' ''c'' 1 Map.empty), (''y'', edge ''y'' ''a'' ''b'' 0.5 Map.empty)]"
    by (simp add: upsertBatch_def CreateRelationships_fold endpointsExist_def
          CreateEntities_Cons CreateEntity_def NewInMemoryDatabase_def collidingBatch_def
          upsertRel_def findExisting_def sameEdge_def mergeRel_def edge_def
          entA_def entB_def entC_def)
  have twice: "relationships (upsertBatch
        (upsertBatch NewInMemoryDatabase [entA, entB, entC] collidingBatch)
        [entA, entB, entC] collidingBatch)
     = [(''x'', edge ''x'' ''a'' ''c'' 1 Map.empty), (''y'', edge ''y'' ''a'' ''b'' 0.9 Map.empty)]"
    by (simp add: upsertBatch_def CreateRelationships_fold endpointsExist_def
          CreateEntities_Cons CreateEntity_def NewInMemoryDatabase_def collidingBatch_def
          upsertRel_def findExisting_def sameEdge_def mergeRel_def edge_def
          entA_def entB_def entC_def)
  show ?thesis
  proof
    assume "upsertBatch (upsertBatch NewInMemoryDatabase [entA, entB, entC] collidingBatch)
              [entA, entB, entC] collidingBatch
            = upsertBatch NewInMemoryDatabase [entA, entB, entC] collidingBatch"
    then have "[(''x'', edge ''x'' ''a'' ''c'' 1 Map.empty), (''y'', edge ''y'' ''a'' ''b'' 0.9 Map.empty)]
      = [(''x'', edge ''x'' ''a'' ''c'' 1 Map.empty), (''y'', edge ''y'' ''a'' ''b'' 0.5 Map.empty)]"
      using once twice by simp
    then show False by (simp add: edge_def)
  qed
qed

text \<open>
  C4.  A relationship stored under the empty id is not found by the search of
  \<^verbatim>\<open>CreateRelationship\<close>, because the empty string is what the search reports when it
  finds nothing.  After two entities \<open>a\<close> and \<open>b\<close>, an edge from \<open>a\<close> to \<open>b\<close> with the empty
  id and an edge with the same source, target and type and the id \<open>e1\<close>, the store,
  reached from the empty store by four calls, holds both edges.
\<close>

theorem empty_id_duplicates_edge:
  "relationships (snd (CreateRelationship
      (snd (CreateRelationship (snd (CreateEntity (snd (CreateEntity NewInMemoryDatabase entA)) entB))
             (edge '''' ''a'' ''b'' 1 Map.empty)))
      (edge ''e1'' ''a'' ''b'' 1 Map.empty)))
   = [('''', edge '''' ''a'' ''b'' 1 Map.empty), (''e1'', edge ''e1'' ''a'' ''b'' 1 Map.empty)]"
  by (simp add: CreateRelationship_def CreateEntity_def NewInMemoryDatabase_def
        findExisting_def sameEdge_def edge_def entA_def entB_def)

section \<open>Properties of the identity scheme\<close>

lemma unhexDigit_hexDigit: "n < 16 \<Longrightarrow> unhexDigit (hexDigit n) = n"
proof -
  assume small: "n < 16"
  have "list_all (\<lambda>m. unhexDigit (hexDigit m) = m) [0 ..< 16]"
    by (simp add: hexDigit_def unhexDigit_def upt_rec)
  then have "\<forall>m \<in> set [0 ..< 16]. unhexDigit (hexDigit m) = m"
    by (simp only: list_all_iff)
  moreover have "n \<in> set [0 ..< 16]" using small by simp
  ultimately show ?thesis by blast
qed

lemma of_char_less_256: "(of_char c :: nat) < 256"
proof -
  have "(of_char c :: nat) mod 256 = of_char c" by simp
  then show ?thesis by (metis mod_less_divisor zero_less_numeral)
qed

lemma unhex_hexByte: "unhex (hexByte c @ rest) = c # unhex rest"
proof -
  let ?n = "of_char c :: nat"
  have "m < 256 \<Longrightarrow> m div 16 < 16" for m :: nat by arith
  then have "?n div 16 < 16" using of_char_less_256[of c] by blast
  moreover have "?n mod 16 < 16" by simp
  ultimately have "unhexDigit (hexDigit (?n div 16)) * 16 + unhexDigit (hexDigit (?n mod 16)) = ?n"
    by (simp add: unhexDigit_hexDigit)
  then show ?thesis by (simp add: hexByte_def)
qed

lemma unhex_Sprint_x: "unhex (Sprint_x s) = s"
  by (induction s) (simp_all add: Sprint_x_def unhex_hexByte)

lemma length_Sprint_x: "length (Sprint_x s) = 2 * length s"
  by (induction s) (simp_all add: Sprint_x_def hexByte_def)

lemma Sprint_x_inject: "Sprint_x s = Sprint_x t \<longleftrightarrow> s = t"
  by (metis unhex_Sprint_x)

lemma Join_Cons: "Join (x # xs) sep = x @ concat (map (\<lambda>d. sep @ d) xs)"
  by (induction xs arbitrary: x) simp_all

lemma generateDeterministicID_key:
  "generateDeterministicID ul entityType label properties
     = Sprint_x (identityKey ul entityType label properties)"
  by (simp add: generateDeterministicID_def identityKey_def pathDiscriminator_def
        sourceDiscriminator_def scopeDiscriminator_def Join_Cons Let_def
      split: option.splits)

text \<open>
  C10.  The id of an entity is the lower-case hexadecimal print of its identity key: the
  lower-cased type, a bar, the lower-cased label, and a bar and a discriminator for each
  selected discriminator.  It is twice as long as the key, the key is read back from it,
  and two ids are equal exactly when the keys are; so the id is not of a fixed length.
  The id of a relationship is the hexadecimal print of source id, bar, type, bar,
  target id.
\<close>

theorem id_is_hex_of_identity_key:
  "ID (graph_CreateEntity ul label entityType properties)
     = Sprint_x (identityKey ul entityType label properties) \<and>
   length (ID (graph_CreateEntity ul label entityType properties))
     = 2 * length (identityKey ul entityType label properties) \<and>
   unhex (ID (graph_CreateEntity ul label entityType properties))
     = identityKey ul entityType label properties \<and>
   ((ID (graph_CreateEntity ul label entityType properties)
       = ID (graph_CreateEntity ul label' entityType' properties'))
     = (identityKey ul entityType label properties
       = identityKey ul entityType' label' properties')) \<and>
   length (ID (graph_CreateEntity ul ''a'' ''FILE'' Map.empty)) = 12 \<and>
   length (ID (graph_CreateEntity ul ''ab'' ''FILE'' [''path'' \<mapsto> PString ''x/ab''])) = 24 \<and>
   RID (graph_CreateRelationship source target relType props)
     = Sprint_x (source @ ''|'' @ relType @ ''|'' @ target) \<and>
   unhex (RID (graph_CreateRelationship source target relType props))
     = source @ ''|'' @ relType @ ''|'' @ target"
proof (intro conjI)
  show "length (ID (graph_CreateEntity ul ''a'' ''FILE'' Map.empty)) = 12"
    by (simp add: graph_CreateEntity_def generateDeterministicID_key length_Sprint_x
          identityKey_def pathDiscriminator_def sourceDiscriminator_def scopeDiscriminator_def
          ToLower_def isASCII_def)
  show "length (ID (graph_CreateEntity ul ''ab'' ''FILE'' [''path'' \<mapsto> PString ''x/ab''])) = 24"
    by (simp add: graph_CreateEntity_def generateDeterministicID_key length_Sprint_x
          identityKey_def pathDiscriminator_def sourceDiscriminator_def scopeDiscriminator_def
          ToLower_def isASCII_def)
qed (simp_all add: graph_CreateEntity_def graph_CreateRelationship_def
       generateDeterministicID_key generateDeterministicRelationshipID_def
       length_Sprint_x unhex_Sprint_x Sprint_x_inject)

subsection \<open>Letter case\<close>

lemma lowerByte_cases:
  "lowerByte c = c \<or>
   (c \<in> set ''ABCDEFGHIJKLMNOPQRSTUVWXYZ'' \<and> lowerByte c \<in> set ''abcdefghijklmnopqrstuvwxyz'')"
  by (simp add: lowerByte_def)

lemma upper_ascii: "x \<in> set ''ABCDEFGHIJKLMNOPQRSTUVWXYZ'' \<Longrightarrow> (of_char x :: nat) < 128"
  by auto

lemma lower_ascii: "x \<in> set ''abcdefghijklmnopqrstuvwxyz'' \<Longrightarrow> (of_char x :: nat) < 128"
  by auto

lemma lowerByte_ascii: "((of_char (lowerByte c) :: nat) < 128) = ((of_char c :: nat) < 128)"
proof -
  from lowerByte_cases[of c] show ?thesis
  proof
    assume "lowerByte c = c"
    then show ?thesis by simp
  next
    assume "c \<in> set ''ABCDEFGHIJKLMNOPQRSTUVWXYZ'' \<and> lowerByte c \<in> set ''abcdefghijklmnopqrstuvwxyz''"
    then have "(of_char c :: nat) < 128" "(of_char (lowerByte c) :: nat) < 128"
      using upper_ascii[of c] lower_ascii[of "lowerByte c"] by blast+
    then show ?thesis by simp
  qed
qed

lemma caseVariant_isASCII: "caseVariant s t \<Longrightarrow> isASCII s = isASCII t"
  unfolding caseVariant_def isASCII_def
proof (induction rule: list_all2_induct)
  case Nil
  then show ?case by simp
next
  case (Cons a s b t)
  have "((of_char a :: nat) < 128) = ((of_char b :: nat) < 128)"
    using lowerByte_ascii[of a] lowerByte_ascii[of b] Cons.hyps(1) by simp
  then show ?case using Cons.IH by simp
qed

lemma caseVariant_map: "caseVariant s t \<Longrightarrow> map lowerByte s = map lowerByte t"
  unfolding caseVariant_def by (induction rule: list_all2_induct) simp_all

lemma caseVariant_refl: "caseVariant s s"
  by (simp add: caseVariant_def list_all2_same)

lemma caseVariant_append: "caseVariant s t \<Longrightarrow> caseVariant (pre @ s) (pre @ t)"
  by (simp add: caseVariant_def list_all2_appendI list_all2_same)

lemma ToLower_caseVariant:
  assumes "\<forall>s t. caseVariant s t \<longrightarrow> ul s = ul t" "caseVariant s t"
  shows "ToLower ul s = ToLower ul t"
  using assms caseVariant_isASCII[OF assms(2)] caseVariant_map[OF assms(2)]
  by (simp add: ToLower_def)

lemma propVariant_ToLower:
  assumes "\<forall>s t. caseVariant s t \<longrightarrow> ul s = ul t" "propVariant p q k"
  shows "map_option (\<lambda>v. ToLower ul (pre @ Sprint_v v)) (p k)
         = map_option (\<lambda>v. ToLower ul (pre @ Sprint_v v)) (q k)"
proof (cases "p k")
  case None
  then show ?thesis using assms(2) by (cases "q k") (simp_all add: propVariant_def)
next
  case (Some v)
  then obtain w where w: "q k = Some w" "caseVariant (Sprint_v v) (Sprint_v w)"
    using assms(2) by (cases "q k") (simp_all add: propVariant_def)
  from ToLower_caseVariant[OF assms(1) caseVariant_append[OF w(2)]] Some w(1)
  show ?thesis by simp
qed

lemma pathDiscriminator_alt:
  "pathDiscriminator ul p =
     (case map_option (\<lambda>v. ToLower ul ([] @ Sprint_v v)) (p ''fullPath'') of
        Some s \<Rightarrow> [s]
      | None \<Rightarrow>
          (case map_option (\<lambda>v. ToLower ul ([] @ Sprint_v v)) (p ''path'') of
             Some s \<Rightarrow> [s]
           | None \<Rightarrow>
               (case map_option (\<lambda>v. ToLower ul ([] @ Sprint_v v)) (p ''relativePath'') of
                  Some s \<Rightarrow> [s]
                | None \<Rightarrow> [])))"
  by (simp add: pathDiscriminator_def split: option.splits)

lemma sourceDiscriminator_alt:
  "sourceDiscriminator ul p =
     (case map_option (\<lambda>v. ToLower ul ([] @ Sprint_v v)) (p ''sourceFile'') of
        None \<Rightarrow> []
      | Some s \<Rightarrow> s # (case p ''lineNumber'' of
                          None \<Rightarrow> [] | Some lineNumber \<Rightarrow> [''line:'' @ Sprint_v lineNumber]))"
  by (simp add: sourceDiscriminator_def split: option.splits)

lemma scopeDiscriminator_alt:
  "scopeDiscriminator ul p =
     (case map_option (\<lambda>v. ToLower ul (''ns:'' @ Sprint_v v)) (p ''namespace'') of
        None \<Rightarrow> [] | Some s \<Rightarrow> [s]) @
     (case map_option (\<lambda>v. ToLower ul (''pkg:'' @ Sprint_v v)) (p ''package'') of
        None \<Rightarrow> [] | Some s \<Rightarrow> [s])"
  by (simp add: scopeDiscriminator_def split: option.splits)

text \<open>
  C5.  \<open>ul\<close> stands for the standard library's lower-casing of strings with a byte above
  \<^verbatim>\<open>0x7f\<close>; it is taken to send two strings that differ only in the case of the letters
  \<^verbatim>\<open>A..Z\<close> to the same string.  Then: when the label of a second entity differs from the
  label of the first only in letter case, the values of \<^verbatim>\<open>fullPath\<close>, \<^verbatim>\<open>path\<close>,
  \<^verbatim>\<open>relativePath\<close>, \<^verbatim>\<open>sourceFile\<close>, \<^verbatim>\<open>namespace\<close> and \<^verbatim>\<open>package\<close> are present in both or absent in
  both and print to strings that differ only in letter case, and the line number is the
  same, the two entities of one type have the same id, whatever their other properties
  are; in particular two entities with identical discriminators have.  The label of the
  created entity is the label that was given.
\<close>

theorem id_case_insensitive:
  assumes "\<forall>s t. caseVariant s t \<longrightarrow> ul s = ul t"
    and "caseVariant label label'"
    and "\<forall>k \<in> set [''fullPath'', ''path'', ''relativePath'', ''sourceFile'', ''namespace'',
                     ''package'']. propVariant p q k"
    and "p ''lineNumber'' = q ''lineNumber''"
  shows "ID (graph_CreateEntity ul label entityType p) = ID (graph_CreateEntity ul label' entityType q) \<and>
         Label (graph_CreateEntity ul label' entityType q) = label'"
proof -
  note pv = propVariant_ToLower[OF assms(1)]
  have v: "propVariant p q ''fullPath''" "propVariant p q ''path''"
    "propVariant p q ''relativePath''" "propVariant p q ''sourceFile''"
    "propVariant p q ''namespace''" "propVariant p q ''package''"
    using assms(3) by simp_all
  have lab: "ToLower ul label = ToLower ul label'"
    by (rule ToLower_caseVariant[OF assms(1,2)])
  have path: "pathDiscriminator ul p = pathDiscriminator ul q"
    unfolding pathDiscriminator_alt pv[OF v(1), of "[]"] pv[OF v(2), of "[]"]
      pv[OF v(3), of "[]"]
    by (rule refl)
  have src: "sourceDiscriminator ul p = sourceDiscriminator ul q"
    unfolding sourceDiscriminator_alt pv[OF v(4), of "[]"] assms(4)
    by (rule refl)
  have scope: "scopeDiscriminator ul p = scopeDiscriminator ul q"
    unfolding scopeDiscriminator_alt pv[OF v(5), of "''ns:''"] pv[OF v(6), of "''pkg:''"]
    by (rule refl)
  have "identityKey ul entityType label p = identityKey ul entityType label' q"
    by (simp add: identityKey_def lab path src scope)
  then show ?thesis
    by (simp add: graph_CreateEntity_def generateDeterministicID_key)
qed

theorem id_case_insensitive_witness:
  "ID (graph_CreateEntity bytewiseLower ''MyClass'' ''CLASS''
         [''sourceFile'' \<mapsto> PString ''Src/A.go'', ''lineNumber'' \<mapsto> PInt 3,
          ''language'' \<mapsto> PString ''go''])
   = ID (graph_CreateEntity bytewiseLower ''myCLASS'' ''CLASS''
         [''sourceFile'' \<mapsto> PString ''src/a.GO'', ''lineNumber'' \<mapsto> PInt 3,
          ''isExported'' \<mapsto> PBool True]) \<and>
   Label (graph_CreateEntity bytewiseLower ''myCLASS'' ''CLASS''
         [''sourceFile'' \<mapsto> PString ''src/a.GO'', ''lineNumber'' \<mapsto> PInt 3,
          ''isExported'' \<mapsto> PBool True]) = ''myCLASS''"
proof -
  let ?p = "[''sourceFile'' \<mapsto> PString ''Src/A.go'', ''lineNumber'' \<mapsto> PInt 3,
             ''language'' \<mapsto> PString ''go'']"
  let ?q = "[''sourceFile'' \<mapsto> PString ''src/a.GO'', ''lineNumber'' \<mapsto> PInt 3,
             ''isExported'' \<mapsto> PBool True]"
  have h1: "\<forall>s t. caseVariant s t \<longrightarrow> bytewiseLower s = bytewiseLower t"
    by (simp add: bytewiseLower_def caseVariant_map)
  have h2: "caseVariant ''MyClass'' ''myCLASS''"
    by (simp add: caseVariant_def lowerByte_def)
  have h3: "\<forall>k \<in> set [''fullPath'', ''path'', ''relativePath'', ''sourceFile'', ''namespace'',
                     ''package'']. propVariant ?p ?q k"
    by (simp add: propVariant_def caseVariant_def lowerByte_def)
  have h4: "?p ''lineNumber'' = ?q ''lineNumber''" by simp
  from id_case_insensitive[OF h1 h2 h3 h4, of "''CLASS''"] show ?thesis .
qed

subsection \<open>Collisions\<close>

lemma takeWhile_part:
  "CHR ''|'' \<notin> set x \<Longrightarrow>
     takeWhile (\<lambda>c. c \<noteq> CHR ''|'') (x @ concat (map (\<lambda>d. ''|'' @ d) ds)) = x"
proof (cases ds)
  case Nil
  assume "CHR ''|'' \<notin> set x"
  then have "takeWhile (\<lambda>c. c \<noteq> CHR ''|'') x = x"
    by (auto simp: takeWhile_eq_all_conv)
  then show ?thesis using Nil by simp
next
  case (Cons d rest)
  assume free: "CHR ''|'' \<notin> set x"
  have "takeWhile (\<lambda>c. c \<noteq> CHR ''|'') (x @ CHR ''|'' # (d @ concat (map (\<lambda>d. ''|'' @ d) rest)))
          = takeWhile (\<lambda>c. c \<noteq> CHR ''|'') x"
    by (rule takeWhile_tail) simp
  also have "\<dots> = x" using free by (auto simp: takeWhile_eq_all_conv)
  finally show ?thesis using Cons by simp
qed

lemma split_part:
  assumes "CHR ''|'' \<notin> set x" and "CHR ''|'' \<notin> set y"
    and "x @ concat (map (\<lambda>d. ''|'' @ d) r) = y @ concat (map (\<lambda>d. ''|'' @ d) s)"
  shows "x = y \<and> concat (map (\<lambda>d. ''|'' @ d) r) = concat (map (\<lambda>d. ''|'' @ d) s)"
proof -
  have "takeWhile (\<lambda>c. c \<noteq> CHR ''|'') (x @ concat (map (\<lambda>d. ''|'' @ d) r))
          = takeWhile (\<lambda>c. c \<noteq> CHR ''|'') (y @ concat (map (\<lambda>d. ''|'' @ d) s))"
    by (simp only: assms(3))
  then have "x = y"
    by (simp only: takeWhile_part[OF assms(1)] takeWhile_part[OF assms(2)])
  then show ?thesis using assms(3) by simp
qed

lemma digits10_no_bar: "CHR ''|'' \<notin> set (digits10 n)"
proof (induction n rule: digits10.induct)
  case (1 n)
  have digit: "CHR ''|'' \<noteq> ''0123456789'' ! k" if "k < 10" for k :: nat
  proof -
    from that have "k \<in> set [0 ..< 10]" by simp
    moreover have "list_all (\<lambda>k. CHR ''|'' \<noteq> ''0123456789'' ! k) [0 ..< 10]"
      by (simp add: upt_rec)
    ultimately show ?thesis unfolding list_all_iff by blast
  qed
  show ?case
  proof (cases "n < 10")
    case True
    then show ?thesis using digit[of n] by (simp del: digits10.simps add: digits10.simps[of n])
  next
    case False
    have "n mod 10 < 10" by simp
    then show ?thesis using False 1 digit[of "n mod 10"]
      by (simp del: digits10.simps add: digits10.simps[of n])
  qed
qed

lemma Sprint_v_PInt_no_bar: "CHR ''|'' \<notin> set (Sprint_v (PInt i))"
  by (simp add: Itoa_def digits10_no_bar del: digits10.simps)

lemma sourceDiscriminator_Some:
  "properties ''sourceFile'' = Some a \<Longrightarrow>
     sourceDiscriminator ul properties =
       ToLower ul (Sprint_v a) #
       (case properties ''lineNumber'' of
          None \<Rightarrow> [] | Some lineNumber \<Rightarrow> [''line:'' @ Sprint_v lineNumber])"
  by (simp add: sourceDiscriminator_def)

text \<open>
  C6, as the id has it.  The key joins its parts with \<^verbatim>\<open>|\<close> and escapes nothing, so the
  statement is about values without that byte.  Take two entities of one type whose
  labels are equal after lower-casing, both with a source file, and with the same path
  discriminator (none in both, for one) or each with a path discriminator without
  \<^verbatim>\<open>|\<close>.  They get different ids when the lower-cased source files differ and contain
  no \<^verbatim>\<open>|\<close>, whatever their line numbers, namespaces and packages are.  They also get
  different ids when the lower-cased source files are equal and both have line numbers
  that print differently and without \<^verbatim>\<open>|\<close>, as integers do, whatever the namespaces
  and packages are.
\<close>

theorem ids_differ_by_file_or_line:
  assumes label: "ToLower ul label = ToLower ul label'"
    and path: "pathDiscriminator ul p = pathDiscriminator ul q \<or>
         (\<exists>x y. pathDiscriminator ul p = [x] \<and> pathDiscriminator ul q = [y] \<and>
                CHR ''|'' \<notin> set x \<and> CHR ''|'' \<notin> set y)"
    and fileP: "p ''sourceFile'' = Some a" and fileQ: "q ''sourceFile'' = Some b"
    and differ: "(ToLower ul (Sprint_v a) \<noteq> ToLower ul (Sprint_v b) \<and>
          CHR ''|'' \<notin> set (ToLower ul (Sprint_v a)) \<and>
          CHR ''|'' \<notin> set (ToLower ul (Sprint_v b))) \<or>
         (ToLower ul (Sprint_v a) = ToLower ul (Sprint_v b) \<and>
          (\<exists>m n. p ''lineNumber'' = Some m \<and> q ''lineNumber'' = Some n \<and>
                 CHR ''|'' \<notin> set (Sprint_v m) \<and> CHR ''|'' \<notin> set (Sprint_v n) \<and>
                 Sprint_v m \<noteq> Sprint_v n))"
  shows "ID (graph_CreateEntity ul label entityType p) \<noteq> ID (graph_CreateEntity ul label' entityType q)"
proof
  let ?B = "\<lambda>d. ''|'' @ d"
  let ?lineP = "case p ''lineNumber'' of None \<Rightarrow> [] | Some lineNumber \<Rightarrow> [''line:'' @ Sprint_v lineNumber]"
  let ?lineQ = "case q ''lineNumber'' of None \<Rightarrow> [] | Some lineNumber \<Rightarrow> [''line:'' @ Sprint_v lineNumber]"
  let ?restP = "?lineP @ scopeDiscriminator ul p"
  let ?restQ = "?lineQ @ scopeDiscriminator ul q"
  assume "ID (graph_CreateEntity ul label entityType p) = ID (graph_CreateEntity ul label' entityType q)"
  then have "identityKey ul entityType label p = identityKey ul entityType label' q"
    by (simp add: graph_CreateEntity_def generateDeterministicID_key Sprint_x_inject)
  then have parts: "concat (map ?B (pathDiscriminator ul p)) @
                      concat (map ?B (sourceDiscriminator ul p @ scopeDiscriminator ul p))
                  = concat (map ?B (pathDiscriminator ul q)) @
                      concat (map ?B (sourceDiscriminator ul q @ scopeDiscriminator ul q))"
    by (simp add: identityKey_def label)
  have "concat (map ?B (sourceDiscriminator ul p @ scopeDiscriminator ul p))
          = concat (map ?B (sourceDiscriminator ul q @ scopeDiscriminator ul q))"
    using path
  proof
    assume "pathDiscriminator ul p = pathDiscriminator ul q"
    then show ?thesis using parts by simp
  next
    assume "\<exists>x y. pathDiscriminator ul p = [x] \<and> pathDiscriminator ul q = [y] \<and>
                CHR ''|'' \<notin> set x \<and> CHR ''|'' \<notin> set y"
    then obtain x y where xy: "pathDiscriminator ul p = [x]" "pathDiscriminator ul q = [y]"
        "CHR ''|'' \<notin> set x" "CHR ''|'' \<notin> set y"
      by blast
    have "x @ concat (map ?B (sourceDiscriminator ul p @ scopeDiscriminator ul p))
            = y @ concat (map ?B (sourceDiscriminator ul q @ scopeDiscriminator ul q))"
      using parts by (simp add: xy(1,2))
    from split_part[OF xy(3,4) this] show ?thesis by simp
  qed
  then have files: "ToLower ul (Sprint_v a) @ concat (map ?B ?restP)
               = ToLower ul (Sprint_v b) @ concat (map ?B ?restQ)"
    using sourceDiscriminator_Some[of p a ul, OF fileP] sourceDiscriminator_Some[of q b ul, OF fileQ]
    by simp
  from differ show False
  proof
    assume byFile: "ToLower ul (Sprint_v a) \<noteq> ToLower ul (Sprint_v b) \<and>
          CHR ''|'' \<notin> set (ToLower ul (Sprint_v a)) \<and>
          CHR ''|'' \<notin> set (ToLower ul (Sprint_v b))"
    then have freeP: "CHR ''|'' \<notin> set (ToLower ul (Sprint_v a))"
      and freeQ: "CHR ''|'' \<notin> set (ToLower ul (Sprint_v b))"
      by simp_all
    from split_part[OF freeP freeQ files] byFile show False by simp
  next
    assume byLine: "ToLower ul (Sprint_v a) = ToLower ul (Sprint_v b) \<and>
          (\<exists>m n. p ''lineNumber'' = Some m \<and> q ''lineNumber'' = Some n \<and>
                 CHR ''|'' \<notin> set (Sprint_v m) \<and> CHR ''|'' \<notin> set (Sprint_v n) \<and>
                 Sprint_v m \<noteq> Sprint_v n)"
    then obtain m n where
      mn: "p ''lineNumber'' = Some m" "q ''lineNumber'' = Some n"
      "CHR ''|'' \<notin> set (Sprint_v m)" "CHR ''|'' \<notin> set (Sprint_v n)"
      and printed: "Sprint_v m \<noteq> Sprint_v n"
      by blast
    from byLine files have rest: "concat (map ?B ?restP) = concat (map ?B ?restQ)"
      by simp
    have "Sprint_v m @ concat (map ?B (scopeDiscriminator ul p))
            = Sprint_v n @ concat (map ?B (scopeDiscriminator ul q))"
      using rest by (simp add: mn(1,2))
    from split_part[OF mn(3,4) this] printed show False by simp
  qed
qed

theorem ids_differ_by_file_or_line_witness:
  "ID (graph_CreateEntity bytewiseLower ''Run'' ''FUNCTION''
         [''sourceFile'' \<mapsto> PString ''a/main.go'', ''lineNumber'' \<mapsto> PInt 10,
          ''namespace'' \<mapsto> PString ''core''])
   \<noteq> ID (graph_CreateEntity bytewiseLower ''run'' ''FUNCTION''
         [''sourceFile'' \<mapsto> PString ''b/main.go'', ''lineNumber'' \<mapsto> PInt 42,
          ''package'' \<mapsto> PString ''util'']) \<and>
   ID (graph_CreateEntity bytewiseLower ''Run'' ''FUNCTION''
         [''sourceFile'' \<mapsto> PString ''a/main.go'', ''lineNumber'' \<mapsto> PInt 10,
          ''namespace'' \<mapsto> PString ''core''])
   \<noteq> ID (graph_CreateEntity bytewiseLower ''run'' ''FUNCTION''
         [''sourceFile'' \<mapsto> PString ''A/Main.go'', ''lineNumber'' \<mapsto> PInt 42])"
proof (intro conjI)
  let ?p = "[''sourceFile'' \<mapsto> PString ''a/main.go'', ''lineNumber'' \<mapsto> PInt 10,
             ''namespace'' \<mapsto> PString ''core'']"
  let ?q = "[''sourceFile'' \<mapsto> PString ''b/main.go'', ''lineNumber'' \<mapsto> PInt 42,
             ''package'' \<mapsto> PString ''util'']"
  let ?r = "[''sourceFile'' \<mapsto> PString ''A/Main.go'', ''lineNumber'' \<mapsto> PInt 42]"
  have lab: "ToLower bytewiseLower ''Run'' = ToLower bytewiseLower ''run''"
    by (simp add: ToLower_def isASCII_def lowerByte_def)
  have pathQ: "pathDiscriminator bytewiseLower ?p = pathDiscriminator bytewiseLower ?q \<or>
         (\<exists>x y. pathDiscriminator bytewiseLower ?p = [x] \<and> pathDiscriminator bytewiseLower ?q = [y] \<and>
                CHR ''|'' \<notin> set x \<and> CHR ''|'' \<notin> set y)"
    by (simp add: pathDiscriminator_def)
  have pathR: "pathDiscriminator bytewiseLower ?p = pathDiscriminator bytewiseLower ?r \<or>
         (\<exists>x y. pathDiscriminator bytewiseLower ?p = [x] \<and> pathDiscriminator bytewiseLower ?r = [y] \<and>
                CHR ''|'' \<notin> set x \<and> CHR ''|'' \<notin> set y)"
    by (simp add: pathDiscriminator_def)
  have sp: "?p ''sourceFile'' = Some (PString ''a/main.go'')"
    and sq: "?q ''sourceFile'' = Some (PString ''b/main.go'')"
    and sr: "?r ''sourceFile'' = Some (PString ''A/Main.go'')"
    by simp_all
  have lowP: "ToLower bytewiseLower ''a/main.go'' = ''a/main.go''"
    and lowQ: "ToLower bytewiseLower ''b/main.go'' = ''b/main.go''"
    and lowR: "ToLower bytewiseLower ''A/Main.go'' = ''a/main.go''"
    by (simp_all add: ToLower_def isASCII_def lowerByte_def)
  have "ToLower bytewiseLower (Sprint_v (PString ''a/main.go''))
          \<noteq> ToLower bytewiseLower (Sprint_v (PString ''b/main.go'')) \<and>
        CHR ''|'' \<notin> set (ToLower bytewiseLower (Sprint_v (PString ''a/main.go''))) \<and>
        CHR ''|'' \<notin> set (ToLower bytewiseLower (Sprint_v (PString ''b/main.go'')))"
    by (simp add: lowP lowQ)
  then have byFile:
       "(ToLower bytewiseLower (Sprint_v (PString ''a/main.go''))
           \<noteq> ToLower bytewiseLower (Sprint_v (PString ''b/main.go'')) \<and>
         CHR ''|'' \<notin> set (ToLower bytewiseLower (Sprint_v (PString ''a/main.go''))) \<and>
         CHR ''|'' \<notin> set (ToLower bytewiseLower (Sprint_v (PString ''b/main.go'')))) \<or>
        (ToLower bytewiseLower (Sprint_v (PString ''a/main.go''))
           = ToLower bytewiseLower (Sprint_v (PString ''b/main.go'')) \<and>
         (\<exists>m n. ?p ''lineNumber'' = Some m \<and> ?q ''lineNumber'' = Some n \<and>
                CHR ''|'' \<notin> set (Sprint_v m) \<and> CHR ''|'' \<notin> set (Sprint_v n) \<and>
                Sprint_v m \<noteq> Sprint_v n))"
    by (rule disjI1)
  have sameFile: "ToLower bytewiseLower (Sprint_v (PString ''a/main.go''))
                    = ToLower bytewiseLower (Sprint_v (PString ''A/Main.go''))"
    by (simp add: lowP lowR)
  have "?p ''lineNumber'' = Some (PInt 10) \<and> ?r ''lineNumber'' = Some (PInt 42) \<and>
        CHR ''|'' \<notin> set (Sprint_v (PInt 10)) \<and> CHR ''|'' \<notin> set (Sprint_v (PInt 42)) \<and>
        Sprint_v (PInt 10) \<noteq> Sprint_v (PInt 42)"
    by (simp add: Itoa_def)
  then have "\<exists>m n. ?p ''lineNumber'' = Some m \<and> ?r ''lineNumber'' = Some n \<and>
                CHR ''|'' \<notin> set (Sprint_v m) \<and> CHR ''|'' \<notin> set (Sprint_v n) \<and>
                Sprint_v m \<noteq> Sprint_v n"
    by blast
  with sameFile have byLine:
       "(ToLower bytewiseLower (Sprint_v (PString ''a/main.go''))
           \<noteq> ToLower bytewiseLower (Sprint_v (PString ''A/Main.go'')) \<and>
         CHR ''|'' \<notin> set (ToLower bytewiseLower (Sprint_v (PString ''a/main.go''))) \<and>
         CHR ''|'' \<notin> set (ToLower bytewiseLower (Sprint_v (PString ''A/Main.go'')))) \<or>
        (ToLower bytewiseLower (Sprint_v (PString ''a/main.go''))
           = ToLower bytewiseLower (Sprint_v (PString ''A/Main.go'')) \<and>
         (\<exists>m n. ?p ''lineNumber'' = Some m \<and> ?r ''lineNumber'' = Some n \<and>
                CHR ''|'' \<notin> set (Sprint_v m) \<and> CHR ''|'' \<notin> set (Sprint_v n) \<and>
                Sprint_v m \<noteq> Sprint_v n))"
    by blast
  show "ID (graph_CreateEntity bytewiseLower ''Run'' ''FUNCTION'' ?p)
        \<noteq> ID (graph_CreateEntity bytewiseLower ''run'' ''FUNCTION'' ?q)"
    by (rule ids_differ_by_file_or_line[OF lab pathQ sp sq byFile])
  show "ID (graph_CreateEntity bytewiseLower ''Run'' ''FUNCTION'' ?p)
        \<noteq> ID (graph_CreateEntity bytewiseLower ''run'' ''FUNCTION'' ?r)"
    by (rule ids_differ_by_file_or_line[OF lab pathR sp sr byLine])
qed

theorem ids_collide_counterexample:
  "PString ''Pkg/Util.go'' \<noteq> PString ''pkg/util.go'' \<and>
   ID (graph_CreateEntity bytewiseLower ''Parse'' ''FUNCTION''
         [''sourceFile'' \<mapsto> PString ''Pkg/Util.go'', ''lineNumber'' \<mapsto> PInt 7])
   = ID (graph_CreateEntity bytewiseLower ''Parse'' ''FUNCTION''
         [''sourceFile'' \<mapsto> PString ''pkg/util.go'', ''lineNumber'' \<mapsto> PInt 7]) \<and>
   PString ''a.go'' \<noteq> PString ''a.go|line:1'' \<and>
   ID (graph_CreateEntity bytewiseLower ''Parse'' ''FUNCTION''
         [''sourceFile'' \<mapsto> PString ''a.go'', ''lineNumber'' \<mapsto> PInt 1])
   = ID (graph_CreateEntity bytewiseLower ''Parse'' ''FUNCTION''
         [''sourceFile'' \<mapsto> PString ''a.go|line:1'']) \<and>
   PString ''line:5'' \<noteq> PString ''x'' \<and>
   ID (graph_CreateEntity bytewiseLower ''Parse'' ''FUNCTION''
         [''path'' \<mapsto> PString ''x'', ''sourceFile'' \<mapsto> PString ''line:5''])
   = ID (graph_CreateEntity bytewiseLower ''Parse'' ''FUNCTION''
         [''sourceFile'' \<mapsto> PString ''x'', ''lineNumber'' \<mapsto> PInt 5]) \<and>
   PString ''line:5'' \<noteq> PString ''a'' \<and>
   ID (graph_CreateEntity bytewiseLower ''Parse'' ''FUNCTION''
         [''path'' \<mapsto> PString ''x|a'', ''sourceFile'' \<mapsto> PString ''line:5''])
   = ID (graph_CreateEntity bytewiseLower ''Parse'' ''FUNCTION''
         [''path'' \<mapsto> PString ''x'', ''sourceFile'' \<mapsto> PString ''a'', ''lineNumber'' \<mapsto> PInt 5]) \<and>
   PString ''1|ns:x'' \<noteq> PInt 1 \<and>
   ID (graph_CreateEntity bytewiseLower ''Parse'' ''FUNCTION''
         [''sourceFile'' \<mapsto> PString ''a.go'', ''lineNumber'' \<mapsto> PString ''1|ns:x''])
   = ID (graph_CreateEntity bytewiseLower ''Parse'' ''FUNCTION''
         [''sourceFile'' \<mapsto> PString ''a.go'', ''lineNumber'' \<mapsto> PInt 1,
          ''namespace'' \<mapsto> PString ''x'']) \<and>
   PString ''1'' \<noteq> PInt 1 \<and>
   ID (graph_CreateEntity bytewiseLower ''Parse'' ''FUNCTION''
         [''sourceFile'' \<mapsto> PString ''a.go'', ''lineNumber'' \<mapsto> PString ''1''])
   = ID (graph_CreateEntity bytewiseLower ''Parse'' ''FUNCTION''
         [''sourceFile'' \<mapsto> PString ''a.go'', ''lineNumber'' \<mapsto> PInt 1])"
  by (simp add: graph_CreateEntity_def generateDeterministicID_key identityKey_def
        pathDiscriminator_def sourceDiscriminator_def scopeDiscriminator_def
        ToLower_def isASCII_def lowerByte_def Itoa_def)

section \<open>Properties of the scan\<close>

lemma scanCallback_dir:
  "IsDir d \<Longrightarrow> scanCallback ul cp dirPath path d None files =
     (if path \<noteq> dirPath \<and> shouldSkipDirectory (nodeName d) then (Some SkipDir, files)
      else (None, files))"
  by (simp add: scanCallback_def)

lemma scanCallback_error: "scanCallback ul cp dirPath path d (Some e) files = (Some e, files)"
  by (simp add: scanCallback_def)

lemma scanCallback_file:
  "\<not> IsDir d \<Longrightarrow> \<exists>files'. scanCallback ul cp dirPath path d None files = (None, files')"
  by (auto simp: scanCallback_def Let_def split: sum.splits)

lemma nodeName_pruneNode: "nodeName (pruneNode d) = nodeName d"
  by (cases d) simp_all

lemma walk_prune:
  "dirPath \<notin> set (below path d) \<Longrightarrow>
     walkDir (scanCallback ul cp dirPath) path (pruneNode d) st
       = walkDir (scanCallback ul cp dirPath) path d st"
  "dirPath \<notin> set (pathsBelow path es) \<Longrightarrow>
     walkDirEntries (scanCallback ul cp dirPath) path (pruneEntries es) st
       = walkDirEntries (scanCallback ul cp dirPath) path es st"
proof (induction d and es arbitrary: path st and path st rule: pruneNode_pruneEntries.induct)
  case (1 name entries)
  then show ?case by (simp add: scanCallback_dir)
next
  case (2 name content modTime)
  then show ?case by simp
next
  case (3 name)
  then show ?case by simp
next
  case 4
  then show ?case by simp
next
  case (5 d rest)
  let ?child = "filepathJoin path (nodeName d)"
  have notroot: "?child \<noteq> dirPath" using "5.prems" by (cases d) auto
  have below_d: "dirPath \<notin> set (below ?child d)" using "5.prems" by (cases d) auto
  have below_rest: "dirPath \<notin> set (pathsBelow path rest)" using "5.prems" by simp
  show ?case
  proof (cases "IsDir d \<and> shouldSkipDirectory (nodeName d)")
    case True
    then have "walkDir (scanCallback ul cp dirPath) ?child d st = (None, st)"
      using notroot by (cases d) (simp_all add: scanCallback_dir)
    then show ?thesis using True "5.IH"(1)[OF True below_rest] by simp
  next
    case False
    have "walkDir (scanCallback ul cp dirPath) ?child (pruneNode d) st
          = walkDir (scanCallback ul cp dirPath) ?child d st"
      using "5.IH"(2)[OF False below_d] .
    moreover have "walkDirEntries (scanCallback ul cp dirPath) path (pruneEntries rest) st'
          = walkDirEntries (scanCallback ul cp dirPath) path rest st'" for st'
      using "5.IH"(3)[OF False below_rest] .
    moreover have "pruneEntries (d # rest) = pruneNode d # pruneEntries rest"
      using False by auto
    ultimately show ?thesis
      by (simp only: walkDirEntries.simps nodeName_pruneNode)
  qed
qed


lemma scanDirectory_files:
  "fst (scanDirectory ul cp dirPath tree) = snd (walkDir (scanCallback ul cp dirPath) dirPath tree [])"
  by (simp add: scanDirectory_def WalkDir_def split: prod.splits option.splits)

lemma scanDirectory_prune:
  assumes "dirPath \<notin> set (below dirPath tree)"
  shows "scanDirectory ul cp dirPath (pruneNode tree) = scanDirectory ul cp dirPath tree"
  unfolding scanDirectory_def WalkDir_def walk_prune(1)[OF assms] ..

lemma AnalyzeCodebase_prune:
  assumes "dirPath \<notin> set (below dirPath tree)"
  shows "AnalyzeCodebase ul rangeOrder cp dirPath (pruneNode tree) = AnalyzeCodebase ul rangeOrder cp dirPath tree"
  unfolding AnalyzeCodebase_def scanDirectory_prune[OF assms] ..

lemma root_descended:
  "walkDir (scanCallback ul cp dirPath) dirPath (FDir name entries) st
     = walkDirEntries (scanCallback ul cp dirPath) dirPath entries st"
  by (simp add: scanCallback_dir)

lemma scanCallback_state:
  "snd (scanCallback ul cp dirPath path d err files) = files \<or>
   (\<exists>file. snd (scanCallback ul cp dirPath path d err files) = files @ [file] \<and>
      \<not> IsDir d \<and> createCodeFile ul cp path d = Inr file \<and>
      lookupBool (supportedExtensions cp) (ToLower ul (filepathExt path)))"
  by (simp add: scanCallback_def Let_def split: option.splits sum.splits)

lemma createCodeFile_fields:
  "createCodeFile ul cp path d = Inr file \<Longrightarrow>
     Path file = path \<and> Extension file = ToLower ul (filepathExt path)"
  by (auto simp: createCodeFile_def Let_def split: fsnode.splits option.splits)

lemma walk_files:
  "\<exists>new. snd (walkDir (scanCallback ul cp dirPath) path d st) = st @ new \<and>
     (\<forall>f\<in>set new. Path f \<in> set (pathsOf path d) \<and>
                   lookupBool (supportedExtensions cp) (Extension f))"
  "\<exists>new. snd (walkDirEntries (scanCallback ul cp dirPath) path es st) = st @ new \<and>
     (\<forall>f\<in>set new. Path f \<in> set (pathsBelow path es) \<and>
                   lookupBool (supportedExtensions cp) (Extension f))"
proof (induction path d and path es arbitrary: st and st rule: pathsOf_pathsBelow.induct)
  case (1 path name entries)
  show ?case
  proof (cases "path \<noteq> dirPath \<and> shouldSkipDirectory name")
    case True
    then have "walkDir (scanCallback ul cp dirPath) path (FDir name entries) st = (None, st)"
      by (simp add: scanCallback_dir)
    then show ?thesis by simp
  next
    case False
    then have "walkDir (scanCallback ul cp dirPath) path (FDir name entries) st
               = walkDirEntries (scanCallback ul cp dirPath) path entries st"
      by (auto simp add: scanCallback_dir)
    moreover obtain new where
      "snd (walkDirEntries (scanCallback ul cp dirPath) path entries st) = st @ new"
      "\<forall>f\<in>set new. Path f \<in> set (pathsBelow path entries) \<and>
                   lookupBool (supportedExtensions cp) (Extension f)"
      using "1.IH"[of st] by blast
    ultimately show ?thesis by auto
  qed
next
  case (2 path name content modTime)
  let ?d = "FFile name content modTime"
  from scanCallback_state[of ul cp dirPath path ?d None st]
  show ?case
  proof
    assume "snd (scanCallback ul cp dirPath path ?d None st) = st"
    then show ?thesis by simp
  next
    assume "\<exists>file. snd (scanCallback ul cp dirPath path ?d None st) = st @ [file] \<and>
      \<not> IsDir ?d \<and> createCodeFile ul cp path ?d = Inr file \<and>
      lookupBool (supportedExtensions cp) (ToLower ul (filepathExt path))"
    then obtain scanned where
      st: "snd (scanCallback ul cp dirPath path ?d None st) = st @ [scanned]"
      and cf: "createCodeFile ul cp path ?d = Inr scanned"
      and ok: "lookupBool (supportedExtensions cp) (ToLower ul (filepathExt path))"
      by blast
    from createCodeFile_fields[OF cf] ok st show ?thesis by simp
  qed
next
  case (3 path name)
  have "snd (walkDir (scanCallback ul cp dirPath) path (FUnreadable name) st) = st"
    by (simp add: scanCallback_dir scanCallback_error)
  then show ?case by simp
next
  case (4 path)
  show ?case by simp
next
  case (5 path d rest)
  let ?child = "filepathJoin path (nodeName d)"
  obtain r st1 where w1: "walkDir (scanCallback ul cp dirPath) ?child d st = (r, st1)"
    by (cases "walkDir (scanCallback ul cp dirPath) ?child d st")
  obtain new1 where n1: "st1 = st @ new1"
    "\<forall>f\<in>set new1. Path f \<in> set (pathsOf ?child d) \<and>
                   lookupBool (supportedExtensions cp) (Extension f)"
    using "5.IH"(1)[of st] w1 by auto
  show ?case
  proof (cases r)
    case None
    obtain new2 where n2:
      "snd (walkDirEntries (scanCallback ul cp dirPath) path rest st1) = st1 @ new2"
      "\<forall>f\<in>set new2. Path f \<in> set (pathsBelow path rest) \<and>
                   lookupBool (supportedExtensions cp) (Extension f)"
      using "5.IH"(2)[of st1] by blast
    have "snd (walkDirEntries (scanCallback ul cp dirPath) path (d # rest) st)
          = st @ (new1 @ new2)"
      using w1 None n1(1) n2(1) by simp
    moreover have "\<forall>f\<in>set (new1 @ new2). Path f \<in> set (pathsBelow path (d # rest)) \<and>
                   lookupBool (supportedExtensions cp) (Extension f)"
      using n1(2) n2(2) by auto
    ultimately show ?thesis by blast
  next
    case (Some err)
    have "snd (walkDirEntries (scanCallback ul cp dirPath) path (d # rest) st) = st @ new1"
      using w1 Some n1(1) by simp
    moreover have "\<forall>f\<in>set new1. Path f \<in> set (pathsBelow path (d # rest)) \<and>
                   lookupBool (supportedExtensions cp) (Extension f)"
      using n1(2) by auto
    ultimately show ?thesis by blast
  qed
qed

lemma scanned_files:
  "f \<in> set (fst (scanDirectory ul cp dirPath tree)) \<Longrightarrow>
     Path f \<in> set (pathsOf dirPath tree) \<and> lookupBool (supportedExtensions cp) (Extension f)"
  using walk_files(1)[of ul cp dirPath dirPath tree "[]"] by (auto simp: scanDirectory_files)

lemma shouldSkipDirectory_names:
  "name \<in> set [''node_modules'', ''.git'', ''.svn'', ''dist'', ''build'', ''out'', ''target'',
                ''bin'', ''obj'', ''.vscode'', ''.idea'', ''__pycache__'', ''coverage'',
                ''.nyc_output'', ''tmp'', ''temp'', ''logs'', ''vendor''] \<Longrightarrow>
   shouldSkipDirectory name"
  by (auto simp: shouldSkipDirectory_def lookupBool_def skipDirs_def)

lemma shouldSkipDirectory_dot:
  "HasPrefix name ''.'' \<Longrightarrow> name \<noteq> ''.'' \<Longrightarrow> shouldSkipDirectory name"
  by (simp add: shouldSkipDirectory_def)

lemma skipped_not_read:
  "path \<noteq> dirPath \<Longrightarrow> shouldSkipDirectory name \<Longrightarrow>
     walkDir (scanCallback ul cp dirPath) path (FDir name entries) st = (None, st)"
  by (simp add: scanCallback_dir)

lemma vendoredTree_below: "''node_modules'' \<notin> set (below ''node_modules'' vendoredTree)"
  by (simp add: vendoredTree_def filepathJoin_def Clean_def cleanStep_def)

lemma vendoredTree_pruned:
  "pruneNode vendoredTree = FDir ''node_modules'' [FFile ''main.go'' (Some '''') ''2024-05-01T10:00:00Z'']"
  by (simp add: vendoredTree_def shouldSkipDirectory_def lookupBool_def skipDirs_def HasPrefix_def)

lemma vendoredTree_scan:
  "map Path (fst (scanDirectory bytewiseLower (NewCodeProcessor fileOnly) ''node_modules'' vendoredTree))
     = [''node_modules/main.go'']"
  by code_simp

text \<open>
  C8.  The hypothesis says that no node below the root is reported under the root's own
  path, as is the case when the names of the entries are file names (not empty, not
  \<^verbatim>\<open>.\<close> or \<^verbatim>\<open>..\<close>, without a separator).  Then \<^verbatim>\<open>AnalyzeCodebase\<close> returns the same batch on a
  tree and on the tree from which every directory below the root with a name that
  \<^verbatim>\<open>shouldSkipDirectory\<close> accepts has been removed with all it holds, so nothing in
  the batch comes from a file under such a directory, whatever its extension is; the path
  of every scanned file is a path of the pruned tree; the walk does not read a directory
  below the root that has such a name; it reads the root whatever the root's name is; and
  \<^verbatim>\<open>shouldSkipDirectory\<close> accepts the eighteen names of the fixed set and every name
  that begins with a dot and is not \<^verbatim>\<open>.\<close> itself.
\<close>

theorem excluded_directories_not_scanned:
  assumes "dirPath \<notin> set (below dirPath tree)"
  shows "AnalyzeCodebase ul rangeOrder cp dirPath tree
           = AnalyzeCodebase ul rangeOrder cp dirPath (pruneNode tree) \<and>
         (\<forall>f \<in> set (fst (scanDirectory ul cp dirPath tree)).
            Path f \<in> set (pathsOf dirPath (pruneNode tree))) \<and>
         (path \<noteq> dirPath \<and> shouldSkipDirectory name \<longrightarrow>
            walkDir (scanCallback ul cp dirPath) path (FDir name entries) st = (None, st)) \<and>
         walkDir (scanCallback ul cp dirPath) dirPath (FDir name entries) st
           = walkDirEntries (scanCallback ul cp dirPath) dirPath entries st \<and>
         (name \<in> set [''node_modules'', ''.git'', ''.svn'', ''dist'', ''build'', ''out'', ''target'',
                ''bin'', ''obj'', ''.vscode'', ''.idea'', ''__pycache__'', ''coverage'',
                ''.nyc_output'', ''tmp'', ''temp'', ''logs'', ''vendor'']
            \<or> HasPrefix name ''.'' \<and> name \<noteq> ''.'' \<longrightarrow> shouldSkipDirectory name)"
proof -
  have same: "AnalyzeCodebase ul rangeOrder cp dirPath tree
           = AnalyzeCodebase ul rangeOrder cp dirPath (pruneNode tree)"
    using AnalyzeCodebase_prune[OF assms, of ul rangeOrder cp] by (rule sym)
  have "\<forall>f \<in> set (fst (scanDirectory ul cp dirPath (pruneNode tree))).
            Path f \<in> set (pathsOf dirPath (pruneNode tree))"
    using scanned_files by blast
  then have kept: "\<forall>f \<in> set (fst (scanDirectory ul cp dirPath tree)).
            Path f \<in> set (pathsOf dirPath (pruneNode tree))"
    by (simp only: scanDirectory_prune[OF assms])
  have skipped: "path \<noteq> dirPath \<and> shouldSkipDirectory name \<longrightarrow>
            walkDir (scanCallback ul cp dirPath) path (FDir name entries) st = (None, st)"
    using skipped_not_read[of path dirPath name ul cp entries st] by blast
  have top: "walkDir (scanCallback ul cp dirPath) dirPath (FDir name entries) st
           = walkDirEntries (scanCallback ul cp dirPath) dirPath entries st"
    by (rule root_descended)
  have names: "name \<in> set [''node_modules'', ''.git'', ''.svn'', ''dist'', ''build'', ''out'', ''target'',
                ''bin'', ''obj'', ''.vscode'', ''.idea'', ''__pycache__'', ''coverage'',
                ''.nyc_output'', ''tmp'', ''temp'', ''logs'', ''vendor'']
            \<or> HasPrefix name ''.'' \<and> name \<noteq> ''.'' \<longrightarrow> shouldSkipDirectory name"
    using shouldSkipDirectory_names shouldSkipDirectory_dot by blast
  show ?thesis
    by (intro conjI) (rule same, rule kept, rule skipped, rule top, rule names)
qed

theorem excluded_directories_not_scanned_witness:
  "''node_modules'' \<notin> set (below ''node_modules'' vendoredTree) \<and>
   AnalyzeCodebase bytewiseLower (\<lambda>keys. keys) (NewCodeProcessor fileOnly) ''node_modules'' vendoredTree
     = AnalyzeCodebase bytewiseLower (\<lambda>keys. keys) (NewCodeProcessor fileOnly) ''node_modules''
         (FDir ''node_modules'' [FFile ''main.go'' (Some '''') ''2024-05-01T10:00:00Z'']) \<and>
   map Path (fst (scanDirectory bytewiseLower (NewCodeProcessor fileOnly) ''node_modules'' vendoredTree))
     = [''node_modules/main.go'']"
proof -
  have h: "''node_modules'' \<notin> set (below ''node_modules'' vendoredTree)"
    by (rule vendoredTree_below)
  note scanned = vendoredTree_scan
  from excluded_directories_not_scanned[OF h, of bytewiseLower "\<lambda>keys. keys" "NewCodeProcessor fileOnly"]
  have "AnalyzeCodebase bytewiseLower (\<lambda>keys. keys) (NewCodeProcessor fileOnly) ''node_modules'' vendoredTree
     = AnalyzeCodebase bytewiseLower (\<lambda>keys. keys) (NewCodeProcessor fileOnly) ''node_modules''
         (pruneNode vendoredTree)"
    by blast
  with h scanned show ?thesis by (simp only: vendoredTree_pruned simp_thms)
qed

subsection \<open>Unsupported extensions and the generic analyzer\<close>

lemma nodeName_dropNode: "nodeName (dropNode ul cp path d) = nodeName d"
  by (cases d) simp_all

lemma scanCallback_unsupported:
  "\<not> IsDir d \<Longrightarrow> \<not> lookupBool (supportedExtensions cp) (ToLower ul (filepathExt path)) \<Longrightarrow>
     scanCallback ul cp dirPath path d None files = (None, files)"
  by (simp add: scanCallback_def)

lemma walk_drop:
  "walkDir (scanCallback ul cp dirPath) path (dropNode ul cp path d) st
     = walkDir (scanCallback ul cp dirPath) path d st"
  "walkDirEntries (scanCallback ul cp dirPath) path (dropEntries ul cp path es) st
     = walkDirEntries (scanCallback ul cp dirPath) path es st"
proof (induction ul cp path d and ul cp path es arbitrary: st and st
        rule: dropNode_dropEntries.induct)
  case (1 ul cp path name entries)
  then show ?case by (simp add: scanCallback_dir)
next
  case (2 ul cp path name content modTime)
  show ?case by simp
next
  case (3 ul cp path name)
  show ?case by simp
next
  case (4 ul cp path)
  show ?case by simp
next
  case (5 ul cp path d rest)
  let ?child = "filepathJoin path (nodeName d)"
  let ?dropped = "\<not> IsDir d \<and> \<not> lookupBool (supportedExtensions cp) (ToLower ul (filepathExt ?child))"
  show ?case
  proof (cases ?dropped)
    case True
    then have "walkDir (scanCallback ul cp dirPath) ?child d st = (None, st)"
      by (cases d) (simp_all add: scanCallback_unsupported)
    moreover have "dropEntries ul cp path (d # rest) = dropEntries ul cp path rest"
      using True by simp
    ultimately show ?thesis using "5.IH"(1)[OF True] by simp
  next
    case False
    have "walkDir (scanCallback ul cp dirPath) ?child (dropNode ul cp ?child d) st
          = walkDir (scanCallback ul cp dirPath) ?child d st"
      using "5.IH"(2)[OF False] .
    moreover have "walkDirEntries (scanCallback ul cp dirPath) path (dropEntries ul cp path rest) st'
          = walkDirEntries (scanCallback ul cp dirPath) path rest st'" for st'
      using "5.IH"(3)[OF False] .
    moreover have "dropEntries ul cp path (d # rest)
          = dropNode ul cp ?child d # dropEntries ul cp path rest"
      using False by auto
    ultimately show ?thesis
      by (simp only: walkDirEntries.simps nodeName_dropNode)
  qed
qed

lemma scanDirectory_drop:
  "scanDirectory ul cp dirPath (dropNode ul cp dirPath tree) = scanDirectory ul cp dirPath tree"
  unfolding scanDirectory_def WalkDir_def walk_drop(1) ..

lemma AnalyzeCodebase_drop:
  "AnalyzeCodebase ul rangeOrder cp dirPath (dropNode ul cp dirPath tree)
     = AnalyzeCodebase ul rangeOrder cp dirPath tree"
  unfolding AnalyzeCodebase_def scanDirectory_drop ..

lemma createCodeFile_unknown:
  assumes "createCodeFile ul cp path d = Inr file" and "languageMap cp (Extension file) = None"
  shows "Language file = ''unknown''"
proof -
  have ext: "Extension file = ToLower ul (filepathExt path)"
    using createCodeFile_fields[OF assms(1)] by simp
  show ?thesis
    using assms(1) assms(2)[unfolded ext]
    by (auto simp: createCodeFile_def Let_def lookupString_def
             split: fsnode.splits option.splits)
qed

lemma GetAnalyzer_unknown:
  "GetAnalyzer (analyzerRegistry (NewCodeProcessor ext)) ''unknown'' = GenericAnalyzer"
  by (simp add: GetAnalyzer_def NewCodeProcessor_def NewAnalyzerRegistry_def RegisterAnalyzer_def
        GoAnalyzer_def TypeScriptAnalyzer_def PythonAnalyzer_def JavaAnalyzer_def
        JSONAnalyzer_def GenericAnalyzer_def)

lemma analyzeFile_unknown:
  "Language file = ''unknown'' \<Longrightarrow>
     analyzeFile ul (NewCodeProcessor ext) file = Inr ([createFileEntity ul file], [])"
  by (simp add: analyzeFile_def GetAnalyzer_unknown Let_def) (simp add: GenericAnalyzer_def)

lemma unmapped_extension:
  "lookupBool (supportedExtensions (NewCodeProcessor ext)) e \<and>
   languageMap (NewCodeProcessor ext) e = None \<longleftrightarrow> e = ''.txt''"
  by (auto simp: NewCodeProcessor_def lookupBool_def split: if_splits)

lemma notesTree_dropped:
  "dropNode bytewiseLower (NewCodeProcessor fileOnly) ''docs'' notesTree
     = FDir ''docs'' [FFile ''notes.txt'' (Some ''hello'') ''2024-05-01T10:00:00Z'']"
  by code_simp

lemma notesFile_created:
  "createCodeFile bytewiseLower (NewCodeProcessor fileOnly) ''docs/notes.txt''
     (FFile ''notes.txt'' (Some ''hello'') ''2024-05-01T10:00:00Z'') = Inr notesFile"
  by code_simp

lemma notesFile_unmapped: "languageMap (NewCodeProcessor fileOnly) (Extension notesFile) = None"
  by code_simp

text \<open>
  C9.  \<^verbatim>\<open>AnalyzeCodebase\<close> returns the same batch on a tree and on the tree without the
  files whose lower-cased extension is not in \<^verbatim>\<open>supportedExtensions\<close>, and every file the
  scan returns, which are the files that \<^verbatim>\<open>analyzeFile\<close> is called on, has a supported
  extension.  For the processor that \<^verbatim>\<open>NewCodeProcessor\<close> builds, a file that
  \<^verbatim>\<open>createCodeFile\<close> reads and whose extension has no entry in \<^verbatim>\<open>languageMap\<close> gets the
  language \<^verbatim>\<open>unknown\<close>, \<^verbatim>\<open>GetAnalyzer\<close> gives the generic analyzer for it, and \<^verbatim>\<open>analyzeFile\<close>
  returns the entity that \<^verbatim>\<open>createFileEntity\<close> made of the file, alone, and no
  relationship.  The one supported extension without a language is \<^verbatim>\<open>.txt\<close>.
\<close>

theorem unknown_language_fallback:
  "AnalyzeCodebase ul rangeOrder cp dirPath tree
     = AnalyzeCodebase ul rangeOrder cp dirPath (dropNode ul cp dirPath tree) \<and>
   (\<forall>f \<in> set (fst (scanDirectory ul cp dirPath tree)).
      lookupBool (supportedExtensions cp) (Extension f)) \<and>
   (createCodeFile ul (NewCodeProcessor ext) path d = Inr file \<and>
    languageMap (NewCodeProcessor ext) (Extension file) = None \<longrightarrow>
      Language file = ''unknown'' \<and>
      GetAnalyzer (analyzerRegistry (NewCodeProcessor ext)) (Language file) = GenericAnalyzer \<and>
      analyzeFile ul (NewCodeProcessor ext) file = Inr ([createFileEntity ul file], [])) \<and>
   (lookupBool (supportedExtensions (NewCodeProcessor ext)) e \<and>
    languageMap (NewCodeProcessor ext) e = None \<longleftrightarrow> e = ''.txt'')"
proof -
  note unmapped = unmapped_extension[of ext e]
  have same: "AnalyzeCodebase ul rangeOrder cp dirPath tree
     = AnalyzeCodebase ul rangeOrder cp dirPath (dropNode ul cp dirPath tree)"
    using AnalyzeCodebase_drop[of ul rangeOrder cp dirPath tree] by (rule sym)
  have supported: "\<forall>f \<in> set (fst (scanDirectory ul cp dirPath tree)).
      lookupBool (supportedExtensions cp) (Extension f)"
    using scanned_files by blast
  have generic: "createCodeFile ul (NewCodeProcessor ext) path d = Inr file \<and>
    languageMap (NewCodeProcessor ext) (Extension file) = None \<longrightarrow>
      Language file = ''unknown'' \<and>
      GetAnalyzer (analyzerRegistry (NewCodeProcessor ext)) (Language file) = GenericAnalyzer \<and>
      analyzeFile ul (NewCodeProcessor ext) file = Inr ([createFileEntity ul file], [])"
  proof (intro impI)
    assume a: "createCodeFile ul (NewCodeProcessor ext) path d = Inr file \<and>
      languageMap (NewCodeProcessor ext) (Extension file) = None"
    then have unknown: "Language file = ''unknown''"
      using createCodeFile_unknown by blast
    show "Language file = ''unknown'' \<and>
      GetAnalyzer (analyzerRegistry (NewCodeProcessor ext)) (Language file) = GenericAnalyzer \<and>
      analyzeFile ul (NewCodeProcessor ext) file = Inr ([createFileEntity ul file], [])"
      using unknown GetAnalyzer_unknown[of ext] analyzeFile_unknown[OF unknown, of ul ext]
      by simp
  qed
  show ?thesis
    by (intro conjI) (rule same, rule supported, rule generic, rule unmapped)
qed

theorem unknown_language_fallback_witness:
  "AnalyzeCodebase bytewiseLower (\<lambda>keys. keys) (NewCodeProcessor fileOnly) ''docs'' notesTree
     = AnalyzeCodebase bytewiseLower (\<lambda>keys. keys) (NewCodeProcessor fileOnly) ''docs''
         (FDir ''docs'' [FFile ''notes.txt'' (Some ''hello'') ''2024-05-01T10:00:00Z'']) \<and>
   createCodeFile bytewiseLower (NewCodeProcessor fileOnly) ''docs/notes.txt''
     (FFile ''notes.txt'' (Some ''hello'') ''2024-05-01T10:00:00Z'') = Inr notesFile \<and>
   languageMap (NewCodeProcessor fileOnly) (Extension notesFile) = None \<and>
   Language notesFile = ''unknown'' \<and>
   analyzeFile bytewiseLower (NewCodeProcessor fileOnly) notesFile
     = Inr ([createFileEntity bytewiseLower notesFile], [])"
proof -
  note inst = unknown_language_fallback[of bytewiseLower "\<lambda>keys. keys" "NewCodeProcessor fileOnly"
      "''docs''" notesTree fileOnly "''docs/notes.txt''"
      "FFile ''notes.txt'' (Some ''hello'') ''2024-05-01T10:00:00Z''" notesFile]
  have same: "AnalyzeCodebase bytewiseLower (\<lambda>keys. keys) (NewCodeProcessor fileOnly) ''docs'' notesTree
     = AnalyzeCodebase bytewiseLower (\<lambda>keys. keys) (NewCodeProcessor fileOnly) ''docs''
         (dropNode bytewiseLower (NewCodeProcessor fileOnly) ''docs'' notesTree)"
    using inst by blast
  have generic: "Language notesFile = ''unknown'' \<and>
      analyzeFile bytewiseLower (NewCodeProcessor fileOnly) notesFile
        = Inr ([createFileEntity bytewiseLower notesFile], [])"
    using inst notesFile_created notesFile_unmapped by blast
  show ?thesis
    using same generic notesFile_created notesFile_unmapped
    by (simp only: notesTree_dropped simp_thms)
qed

section \<open>Properties of the directory scaffold\<close>

lemma Type_createDirectoryEntity: "Type (createDirectoryEntity ul dir rootPath) = EntityTypeDirectory"
  by (simp add: createDirectoryEntity_def graph_CreateEntity_def Let_def)

lemma pathIs_createDirectoryEntity: "pathIs (createDirectoryEntity ul dir rootPath) p \<longleftrightarrow> dir = p"
  by (simp add: createDirectoryEntity_def graph_CreateEntity_def Let_def pathIs_def)

lemma Type_createFileEntity: "Type (createFileEntity ul file) = EntityTypeFile"
  by (simp add: createFileEntity_def graph_CreateEntity_def Let_def)

lemma pathIs_createFileEntity: "pathIs (createFileEntity ul file) p \<longleftrightarrow> Path file = p"
  by (simp add: createFileEntity_def graph_CreateEntity_def Let_def pathIs_def)

lemma File_not_Directory: "EntityTypeFile \<noteq> EntityTypeDirectory"
  by (simp add: EntityTypeFile_def EntityTypeDirectory_def)

lemma foldl_pair:
  "foldl (\<lambda>(a, b) x. (if P x then Some x else a, if Q x then Some x else b)) (a0, b0) es
     = (foldl (\<lambda>a x. if P x then Some x else a) a0 es,
        foldl (\<lambda>b x. if Q x then Some x else b) b0 es)"
  by (induction es arbitrary: a0 b0) simp_all

lemma foldl_only:
  assumes "e \<in> set es" and "P e" and "\<forall>y \<in> set es. P y \<longrightarrow> y = e"
  shows "foldl (\<lambda>a y. if P y then Some y else a) a0 es = Some e"
  using assms
proof (induction es arbitrary: a0 rule: rev_induct)
  case Nil
  then show ?case by simp
next
  case (snoc z zs)
  show ?case
  proof (cases "P z")
    case True
    then have "z = e" using snoc.prems(3) by simp
    then show ?thesis using True by simp
  next
    case False
    then have mem: "e \<in> set zs" using snoc.prems(1,2) by auto
    have uniq: "\<forall>y \<in> set zs. P y \<longrightarrow> y = e" using snoc.prems(3) by simp
    have "foldl (\<lambda>a y. if P y then Some y else a) a0 zs = Some e"
      by (rule snoc.IH[OF mem snoc.prems(2) uniq])
    then show ?thesis using False by simp
  qed
qed

lemma createFileDirectoryRelationships_only:
  assumes "dirEntity \<in> set allEntities"
      and "Type dirEntity = EntityTypeDirectory \<and> pathIs dirEntity (filepathDir (Path file))"
      and "\<forall>y \<in> set allEntities.
             Type y = EntityTypeDirectory \<and> pathIs y (filepathDir (Path file)) \<longrightarrow> y = dirEntity"
      and "fileEntity \<in> set allEntities"
      and "Type fileEntity = EntityTypeFile \<and> pathIs fileEntity (Path file)"
      and "\<forall>y \<in> set allEntities.
             Type y = EntityTypeFile \<and> pathIs y (Path file) \<longrightarrow> y = fileEntity"
  shows "createFileDirectoryRelationships file allEntities =
           [graph_CreateRelationship (ID dirEntity) (ID fileEntity) RelationshipTypeContains Map.empty]"
proof -
  have d: "foldl (\<lambda>a y. if Type y = EntityTypeDirectory \<and> pathIs y (filepathDir (Path file))
                         then Some y else a) None allEntities = Some dirEntity"
    by (rule foldl_only[where P = "\<lambda>y. Type y = EntityTypeDirectory \<and> pathIs y (filepathDir (Path file))",
          OF assms(1) assms(2) assms(3)])
  have f: "foldl (\<lambda>b y. if Type y = EntityTypeFile \<and> pathIs y (Path file)
                         then Some y else b) None allEntities = Some fileEntity"
    by (rule foldl_only[where P = "\<lambda>y. Type y = EntityTypeFile \<and> pathIs y (Path file)",
          OF assms(4) assms(5) assms(6)])
  have "foldl (\<lambda>(dirEntity, fileEntity) entity.
                    (if Type entity = EntityTypeDirectory \<and> pathIs entity (filepathDir (Path file))
                     then Some entity else dirEntity,
                     if Type entity = EntityTypeFile \<and> pathIs entity (Path file)
                     then Some entity else fileEntity))
                  (None, None) allEntities = (Some dirEntity, Some fileEntity)"
    unfolding foldl_pair[where P = "\<lambda>y. Type y = EntityTypeDirectory \<and> pathIs y (filepathDir (Path file))"
                and Q = "\<lambda>y. Type y = EntityTypeFile \<and> pathIs y (Path file)"] d f ..
  then show ?thesis
    by (simp add: createFileDirectoryRelationships_def Let_def)
qed

lemma scaffold_paths:
  "filepathJoin ''a'' ''b'' = ''a/b''" "filepathJoin ''a/b'' ''x.go'' = ''a/b/x.go''"
  "filepathJoin ''a'' ''y.go'' = ''a/y.go''"
  "filepathExt ''a/b/x.go'' = ''.go''" "filepathExt ''a/y.go'' = ''.go''"
  "filepathBase ''a/b/x.go'' = ''x.go''" "filepathBase ''a/y.go'' = ''y.go''"
  "filepathDir ''a/b/x.go'' = ''a/b''" "filepathDir ''a/y.go'' = ''a''"
  "shouldSkipDirectory ''b'' = False"
  by code_simp+

lemma scaffold_chains:
  "dirChain ''a/b'' [] = [''a/b'', ''a'']" "dirChain ''a'' [''a/b'', ''a''] = [''a/b'', ''a'']"
  by code_simp+

lemma ToLower_go: "ToLower ul ''.go'' = ''.go''"
  by (simp add: ToLower_def isASCII_def lowerByte_def)

lemma go_supported:
  "lookupBool (supportedExtensions (NewCodeProcessor ext)) ''.go'' = True"
  "lookupString (languageMap (NewCodeProcessor ext)) ''.go'' = ''go''"
  by (simp_all add: NewCodeProcessor_def lookupBool_def lookupString_def)

lemma GetAnalyzer_go:
  "Analyze (GetAnalyzer (analyzerRegistry (NewCodeProcessor ext)) ''go'') = analyzeGoFile ext"
  by (simp add: GetAnalyzer_def NewCodeProcessor_def NewAnalyzerRegistry_def RegisterAnalyzer_def
        GoAnalyzer_def TypeScriptAnalyzer_def PythonAnalyzer_def JavaAnalyzer_def
        JSONAnalyzer_def GenericAnalyzer_def)

lemma scaffold_scan:
  "scanDirectory ul (NewCodeProcessor ext) ''a'' (scaffoldTree contentX modTimeX contentY modTimeY)
     = ([scaffoldX contentX modTimeX, scaffoldY contentY modTimeY], None)"
  by (simp add: scanDirectory_def WalkDir_def scaffoldTree_def scanCallback_def createCodeFile_def
        scaffold_paths ToLower_go go_supported scaffoldX_def scaffoldY_def Let_def)

lemma scaffold_directories:
  "extractDirectories rangeOrder [scaffoldX contentX modTimeX, scaffoldY contentY modTimeY]
     = rangeOrder [''a/b'', ''a'']"
  by (simp add: extractDirectories_def scaffoldX_def scaffoldY_def scaffold_paths scaffold_chains
        del: dirChain.simps)

text \<open>
  C7, as the code has it.  \<open>rangeOrder\<close> only rearranges the keys, and the Go analyzer
  returns the file entity first, followed by entities that are neither files nor
  directories, as \<^verbatim>\<open>analyzeGoFile\<close> does.  For the files \<^verbatim>\<open>a/b/x.go\<close> and \<^verbatim>\<open>a/y.go\<close> under the
  walk root \<^verbatim>\<open>a\<close>, whatever they contain: the scan returns the two files; the directories
  are \<^verbatim>\<open>a/b\<close> and \<^verbatim>\<open>a\<close>, so the chain of a file runs up to the first component of its path
  and includes the walk root; the batch holds the entities of these two directories, then
  what the analyzer returned for each file; and its relationships are those the analyzer
  returned for \<^verbatim>\<open>x.go\<close>, the \<^verbatim>\<open>CONTAINS\<close> edge from \<^verbatim>\<open>a/b\<close> to \<^verbatim>\<open>x.go\<close>, those the analyzer
  returned for \<^verbatim>\<open>y.go\<close>, the \<^verbatim>\<open>CONTAINS\<close> edge from \<^verbatim>\<open>a\<close> to \<^verbatim>\<open>y.go\<close>, and the import
  relationships.  No relationship between two directories is made.
\<close>

theorem directory_scaffold:
  assumes order: "\<forall>keys. set (rangeOrder keys) = set keys"
    and goX: "analyzeGoFile ext (scaffoldX contentX modTimeX)
                (createFileEntity ul (scaffoldX contentX modTimeX))
              = Inr (createFileEntity ul (scaffoldX contentX modTimeX) # extrasX, relsX)"
    and goY: "analyzeGoFile ext (scaffoldY contentY modTimeY)
                (createFileEntity ul (scaffoldY contentY modTimeY))
              = Inr (createFileEntity ul (scaffoldY contentY modTimeY) # extrasY, relsY)"
    and extras: "\<forall>e \<in> set (extrasX @ extrasY).
                   Type e \<noteq> EntityTypeFile \<and> Type e \<noteq> EntityTypeDirectory"
  shows "let tree = scaffoldTree contentX modTimeX contentY modTimeY;
             fileX = scaffoldX contentX modTimeX;
             fileY = scaffoldY contentY modTimeY;
             directories = rangeOrder [''a/b'', ''a''];
             allEntities = map (\<lambda>dir. createDirectoryEntity ul dir ''a'') directories @
                           (createFileEntity ul fileX # extrasX) @
                           (createFileEntity ul fileY # extrasY)
         in scanDirectory ul (NewCodeProcessor ext) ''a'' tree = ([fileX, fileY], None) \<and>
            extractDirectories rangeOrder [fileX, fileY] = directories \<and>
            set directories = {''a/b'', ''a''} \<and>
            AnalyzeCodebase ul rangeOrder (NewCodeProcessor ext) ''a'' tree =
              Inr (allEntities,
                   relsX @
                   [graph_CreateRelationship (ID (createDirectoryEntity ul ''a/b'' ''a''))
                      (ID (createFileEntity ul fileX)) RelationshipTypeContains Map.empty] @
                   relsY @
                   [graph_CreateRelationship (ID (createDirectoryEntity ul ''a'' ''a''))
                      (ID (createFileEntity ul fileY)) RelationshipTypeContains Map.empty] @
                   createImportRelationships allEntities)"
proof -
  let ?cp = "NewCodeProcessor ext"
  let ?X = "scaffoldX contentX modTimeX"
  let ?Y = "scaffoldY contentY modTimeY"
  let ?feX = "createFileEntity ul ?X"
  let ?feY = "createFileEntity ul ?Y"
  let ?dAB = "createDirectoryEntity ul ''a/b'' ''a''"
  let ?dA = "createDirectoryEntity ul ''a'' ''a''"
  let ?D = "map (\<lambda>dir. createDirectoryEntity ul dir ''a'') (rangeOrder [''a/b'', ''a''])"
  let ?eX = "graph_CreateRelationship (ID ?dAB) (ID ?feX) RelationshipTypeContains Map.empty"
  let ?eY = "graph_CreateRelationship (ID ?dA) (ID ?feY) RelationshipTypeContains Map.empty"
  have keys: "set (rangeOrder [''a/b'', ''a'']) = {''a/b'', ''a''}"
    using order by simp
  have pathX: "Path ?X = ''a/b/x.go''" and pathY: "Path ?Y = ''a/y.go''"
    and langX: "Language ?X = ''go''" and langY: "Language ?Y = ''go''"
    by (simp_all add: scaffoldX_def scaffoldY_def)
  have dirX: "filepathDir (Path ?X) = ''a/b''" and dirY: "filepathDir (Path ?Y) = ''a''"
    by (simp_all only: pathX pathY scaffold_paths)
  have exX: "\<forall>e \<in> set extrasX. Type e \<noteq> EntityTypeFile \<and> Type e \<noteq> EntityTypeDirectory"
    and exY: "\<forall>e \<in> set extrasY. Type e \<noteq> EntityTypeFile \<and> Type e \<noteq> EntityTypeDirectory"
    using extras by simp_all
  have isDir: "Type y = EntityTypeDirectory" if "y \<in> set ?D" for y
  proof -
    from that obtain dir where "y = createDirectoryEntity ul dir ''a''" by auto
    then show ?thesis by (simp only: Type_createDirectoryEntity)
  qed
  have atPath: "y = createDirectoryEntity ul p ''a''" if "y \<in> set ?D" and "pathIs y p" for y p
  proof -
    from that(1) obtain dir where y: "y = createDirectoryEntity ul dir ''a''" by auto
    with that(2) have "dir = p" by (simp only: pathIs_createDirectoryEntity)
    with y show ?thesis by simp
  qed
  have noFile: "Type y \<noteq> EntityTypeFile" if "y \<in> set ?D" for y
    using isDir[OF that] File_not_Directory by simp
  have dAB: "?dAB \<in> set ?D" and dA: "?dA \<in> set ?D"
    using keys by auto
  have anaX: "analyzeFile ul ?cp ?X = Inr (?feX # extrasX, relsX)"
    by (simp only: analyzeFile_def Let_def langX GetAnalyzer_go goX)
  have anaY: "analyzeFile ul ?cp ?Y = Inr (?feY # extrasY, relsY)"
    by (simp only: analyzeFile_def Let_def langY GetAnalyzer_go goY)
  have tyX: "Type ?feX = EntityTypeFile" and tyY: "Type ?feY = EntityTypeFile"
    by (simp_all only: Type_createFileEntity)
  have atX: "pathIs ?feX p \<longleftrightarrow> p = ''a/b/x.go''" and atY: "pathIs ?feY p \<longleftrightarrow> p = ''a/y.go''" for p
    by (auto simp only: pathIs_createFileEntity pathX pathY)
  have differ: "(''a/b/x.go'' :: string) \<noteq> ''a/y.go''" by simp
  have relX: "createFileDirectoryRelationships ?X (?D @ ?feX # extrasX) = [?eX]"
  proof (rule createFileDirectoryRelationships_only)
    show "?dAB \<in> set (?D @ ?feX # extrasX)" using dAB by simp
    show "Type ?dAB = EntityTypeDirectory \<and> pathIs ?dAB (filepathDir (Path ?X))"
      by (simp only: dirX Type_createDirectoryEntity pathIs_createDirectoryEntity simp_thms)
    show "\<forall>y \<in> set (?D @ ?feX # extrasX).
            Type y = EntityTypeDirectory \<and> pathIs y (filepathDir (Path ?X)) \<longrightarrow> y = ?dAB"
    proof (intro ballI impI)
      fix y
      assume mem: "y \<in> set (?D @ ?feX # extrasX)"
        and hit: "Type y = EntityTypeDirectory \<and> pathIs y (filepathDir (Path ?X))"
      from mem consider "y \<in> set ?D" | "y = ?feX" | "y \<in> set extrasX" by auto
      then show "y = ?dAB"
      proof cases
        case 1
        from atPath[OF 1, of "''a/b''"] hit show ?thesis by (simp only: dirX)
      next
        case 2
        with hit tyX File_not_Directory show ?thesis by simp
      next
        case 3
        with hit exX show ?thesis by blast
      qed
    qed
    show "?feX \<in> set (?D @ ?feX # extrasX)" by simp
    show "Type ?feX = EntityTypeFile \<and> pathIs ?feX (Path ?X)"
      by (simp only: tyX atX pathX simp_thms)
    show "\<forall>y \<in> set (?D @ ?feX # extrasX).
            Type y = EntityTypeFile \<and> pathIs y (Path ?X) \<longrightarrow> y = ?feX"
    proof (intro ballI impI)
      fix y
      assume mem: "y \<in> set (?D @ ?feX # extrasX)"
        and hit: "Type y = EntityTypeFile \<and> pathIs y (Path ?X)"
      from mem consider "y \<in> set ?D" | "y = ?feX" | "y \<in> set extrasX" by auto
      then show "y = ?feX"
      proof cases
        case 1
        with hit noFile show ?thesis by blast
      next
        case 2
        then show ?thesis .
      next
        case 3
        with hit exX show ?thesis by blast
      qed
    qed
  qed
  have relY: "createFileDirectoryRelationships ?Y (?D @ ?feX # extrasX @ ?feY # extrasY) = [?eY]"
  proof (rule createFileDirectoryRelationships_only)
    show "?dA \<in> set (?D @ ?feX # extrasX @ ?feY # extrasY)" using dA by simp
    show "Type ?dA = EntityTypeDirectory \<and> pathIs ?dA (filepathDir (Path ?Y))"
      by (simp only: dirY Type_createDirectoryEntity pathIs_createDirectoryEntity simp_thms)
    show "\<forall>y \<in> set (?D @ ?feX # extrasX @ ?feY # extrasY).
            Type y = EntityTypeDirectory \<and> pathIs y (filepathDir (Path ?Y)) \<longrightarrow> y = ?dA"
    proof (intro ballI impI)
      fix y
      assume mem: "y \<in> set (?D @ ?feX # extrasX @ ?feY # extrasY)"
        and hit: "Type y = EntityTypeDirectory \<and> pathIs y (filepathDir (Path ?Y))"
      from mem consider "y \<in> set ?D" | "y = ?feX" | "y \<in> set extrasX"
        | "y = ?feY" | "y \<in> set extrasY" by auto
      then show "y = ?dA"
      proof cases
        case 1
        from atPath[OF 1, of "''a''"] hit show ?thesis by (simp only: dirY)
      next
        case 2
        with hit tyX File_not_Directory show ?thesis by simp
      next
        case 3
        with hit exX show ?thesis by blast
      next
        case 4
        with hit tyY File_not_Directory show ?thesis by simp
      next
        case 5
        with hit exY show ?thesis by blast
      qed
    qed
    show "?feY \<in> set (?D @ ?feX # extrasX @ ?feY # extrasY)" by simp
    show "Type ?feY = EntityTypeFile \<and> pathIs ?feY (Path ?Y)"
      by (simp only: tyY atY pathY simp_thms)
    show "\<forall>y \<in> set (?D @ ?feX # extrasX @ ?feY # extrasY).
            Type y = EntityTypeFile \<and> pathIs y (Path ?Y) \<longrightarrow> y = ?feY"
    proof (intro ballI impI)
      fix y
      assume mem: "y \<in> set (?D @ ?feX # extrasX @ ?feY # extrasY)"
        and hit: "Type y = EntityTypeFile \<and> pathIs y (Path ?Y)"
      from mem consider "y \<in> set ?D" | "y = ?feX" | "y \<in> set extrasX"
        | "y = ?feY" | "y \<in> set extrasY" by auto
      then show "y = ?feY"
      proof cases
        case 1
        with hit noFile show ?thesis by blast
      next
        case 2
        with hit have "pathIs ?feX (Path ?Y)" by simp
        then have "(''a/y.go'' :: string) = ''a/b/x.go''" by (simp only: atX pathY)
        then show ?thesis by simp
      next
        case 3
        with hit exX show ?thesis by blast
      next
        case 4
        then show ?thesis .
      next
        case 5
        with hit exY show ?thesis by blast
      qed
    qed
  qed
  have loop: "processFiles ul ?cp [?X, ?Y] ?D []
                = (?D @ ?feX # extrasX @ ?feY # extrasY, relsX @ [?eX] @ relsY @ [?eY])"
    by (simp add: anaX anaY relX relY Let_def)
  have "AnalyzeCodebase ul rangeOrder ?cp ''a'' (scaffoldTree contentX modTimeX contentY modTimeY)
          = Inr (?D @ ?feX # extrasX @ ?feY # extrasY,
                 (relsX @ [?eX] @ relsY @ [?eY]) @
                 createImportRelationships (?D @ ?feX # extrasX @ ?feY # extrasY))"
    by (simp only: AnalyzeCodebase_def scaffold_scan scaffold_directories Let_def loop
          prod.case option.case)
  then show ?thesis
    by (simp add: Let_def scaffold_scan scaffold_directories keys)
qed

theorem directory_scaffold_witness:
  "(\<forall>keys. set (rev keys) = set (keys :: string list)) \<and>
   map_sum id (\<lambda>(ents, rels). (map keyOf ents, map endsOf rels))
     (AnalyzeCodebase bytewiseLower rev (NewCodeProcessor fileOnly) ''a''
        (scaffoldTree '''' ''2024-05-01T10:00:00Z'' '''' ''2024-05-02T10:00:00Z''))
   = Inr ([''directory|a|a'', ''directory|b|a/b'', ''file|x.go|a/b/x.go'', ''file|y.go|a/y.go''],
          [(''directory|b|a/b'', ''CONTAINS'', ''file|x.go|a/b/x.go''),
           (''directory|a|a'', ''CONTAINS'', ''file|y.go|a/y.go'')])"
proof -
  let ?X = "scaffoldX '''' ''2024-05-01T10:00:00Z''"
  let ?Y = "scaffoldY '''' ''2024-05-02T10:00:00Z''"
  let ?E = "map (\<lambda>dir. createDirectoryEntity bytewiseLower dir ''a'') (rev [''a/b'', ''a'']) @
            (createFileEntity bytewiseLower ?X # []) @ (createFileEntity bytewiseLower ?Y # [])"
  let ?R = "[] @
            [graph_CreateRelationship (ID (createDirectoryEntity bytewiseLower ''a/b'' ''a''))
               (ID (createFileEntity bytewiseLower ?X)) RelationshipTypeContains Map.empty] @
            [] @
            [graph_CreateRelationship (ID (createDirectoryEntity bytewiseLower ''a'' ''a''))
               (ID (createFileEntity bytewiseLower ?Y)) RelationshipTypeContains Map.empty] @
            createImportRelationships ?E"
  have order: "\<forall>keys. set (rev keys) = set (keys :: string list)" by simp
  have goX: "analyzeGoFile fileOnly ?X (createFileEntity bytewiseLower ?X)
               = Inr (createFileEntity bytewiseLower ?X # [], [])"
    and goY: "analyzeGoFile fileOnly ?Y (createFileEntity bytewiseLower ?Y)
               = Inr (createFileEntity bytewiseLower ?Y # [], [])"
    by (simp_all add: fileOnly_def)
  have extras: "\<forall>e \<in> set ([] @ []). Type e \<noteq> EntityTypeFile \<and> Type e \<noteq> EntityTypeDirectory"
    by simp
  have batch: "AnalyzeCodebase bytewiseLower rev (NewCodeProcessor fileOnly) ''a''
                 (scaffoldTree '''' ''2024-05-01T10:00:00Z'' '''' ''2024-05-02T10:00:00Z'')
               = Inr (?E, ?R)"
    using directory_scaffold[OF order goX goY extras] unfolding Let_def by blast
  have "map_sum id (\<lambda>(ents, rels). (map keyOf ents, map endsOf rels)) (Inr (?E, ?R) :: ioError + Entity list \<times> Relationship list)
        = Inr ([''directory|a|a'', ''directory|b|a/b'', ''file|x.go|a/b/x.go'', ''file|y.go|a/y.go''],
          [(''directory|b|a/b'', ''CONTAINS'', ''file|x.go|a/b/x.go''),
           (''directory|a|a'', ''CONTAINS'', ''file|y.go|a/y.go'')])"
    by code_simp
  then show ?thesis unfolding batch using order by blast
qed

theorem directory_scaffold_counterexample:
  "map_sum id (\<lambda>(ents, rels). (map keyOf ents, map endsOf rels))
     (AnalyzeCodebase bytewiseLower (\<lambda>keys. keys) (NewCodeProcessor fileOnly) ''a''
        (scaffoldTree '''' ''2024-05-01T10:00:00Z'' '''' ''2024-05-01T10:00:00Z''))
   = Inr ([''directory|b|a/b'', ''directory|a|a'', ''file|x.go|a/b/x.go'', ''file|y.go|a/y.go''],
          [(''directory|b|a/b'', ''CONTAINS'', ''file|x.go|a/b/x.go''),
           (''directory|a|a'', ''CONTAINS'', ''file|y.go|a/y.go'')])"
  by code_simp

end
